theory Spec2Isabelle
  imports Complex_Main "HOL-Library.Word" "HOL-Library.Sublist"
begin

section \<open>JavaScript values\<close>

text \<open>
  A JavaScript string is modelled as a \<open>string\<close> whose characters are code units below
  256 (the Latin-1 range; \<open>atob\<close> produces exactly such "binary strings").
  TypeScript types are erased when the program runs: what \<open>JSON.parse\<close> returns is any
  JSON value, whatever the declared return type says. The only thing the code asks of a
  number is whether it is zero (in \<open>||\<close>), so a number is kept as a rational. An
  object lists its properties, every key once.
\<close>

datatype json =
    JNull
  | JBool bool
  | JNum rat
  | JStr string
  | JArr "json list"
  | JObj "(string \<times> json) list"

text \<open>A value that may be \<open>undefined\<close> is a \<open>json option\<close>, \<open>None\<close> being \<open>undefined\<close>.\<close>

fun truthy :: "json option \<Rightarrow> bool" where
  "truthy None = False"
| "truthy (Some JNull) = False"
| "truthy (Some (JBool b)) = b"
| "truthy (Some (JNum n)) = (n \<noteq> 0)"
| "truthy (Some (JStr s)) = (s \<noteq> [])"
| "truthy (Some (JArr xs)) = True"
| "truthy (Some (JObj kvs)) = True"

text \<open>\<open>a || b\<close> where \<open>b\<close> is always defined.\<close>

definition js_or :: "json option \<Rightarrow> json \<Rightarrow> json" where
  "js_or a b = (if truthy a then the a else b)"

datatype js_error = TypeError | RangeError | NotSupportedError | InvalidCharacterError
  | NotAllowedError | Error string | RemoteError

text \<open>
  Property read \<open>v.k\<close> for one of the field names of the dictionary payload: reading from
  \<open>null\<close> throws, a primitive or an array has no such property, an object gives its
  binding.
\<close>

fun get_prop :: "json \<Rightarrow> string \<Rightarrow> js_error + json option" where
  "get_prop JNull k = Inl TypeError"
| "get_prop (JObj kvs) k = Inr (map_of kvs k)"
| "get_prop v k = Inr None"

definition is_js_space :: "char \<Rightarrow> bool" where
  "is_js_space c = ((of_char c :: nat) \<in> {9, 10, 11, 12, 13, 32, 160})"

definition trim :: "string \<Rightarrow> string" where
  "trim s = rev (dropWhile is_js_space (rev (dropWhile is_js_space s)))"

section \<open>types.ts\<close>

text \<open>
  The fields that \<open>performLookup\<close> fills from the parsed payload hold whatever JSON value
  the payload had there; the interface declares them as strings and arrays, and nothing
  checks it. The fields \<open>id\<close> and \<open>term\<close> are written \<open>id_entry\<close> and \<open>term_entry\<close>.
\<close>

record DictionaryEntry =
  id_entry :: string
  term_entry :: string
  translatedTerm :: json
  definitionTarget :: json
  definitionNative :: json
  examples :: json
  scenario :: json
  usageNote :: json
  imageUrl :: "string option"
  sourceLang :: string
  targetLang :: string
  createdAt :: nat

datatype role = User | Model

record ChatMessage =
  id_msg :: string
  role_msg :: role
  text_msg :: string

datatype AppView = ONBOARDING | SEARCH | RESULT | NOTEBOOK | FLASHCARDS | STORY

section \<open>App state\<close>

text \<open>
  The \<open>useState\<close> cells of \<open>App\<close> that the handlers below read or write, and the
  messages shown with \<open>alert\<close>, in order. The cell \<open>targetLang\<close> is written
  \<open>targetLangSel\<close>, the name being taken by the field of the entry.
\<close>

record app_state =
  view :: AppView
  history :: "AppView list"
  nativeLang :: string
  targetLangSel :: string
  searchQuery :: string
  loading :: bool
  currentEntry :: "DictionaryEntry option"
  notebook :: "DictionaryEntry list"
  chatHistory :: "ChatMessage list"
  isChatOpen :: bool
  selectedStoryWordIds :: "string list"
  audioLoadingId :: "string option"
  alerts :: "string list"

text \<open>The state of a freshly mounted \<open>App\<close>, the notebook being what local storage held.\<close>

definition initial_state :: "DictionaryEntry list \<Rightarrow> app_state" where
  "initial_state saved = \<lparr> view = ONBOARDING, history = [], nativeLang = ''en'',
     targetLangSel = ''es'', searchQuery = [], loading = False, currentEntry = None,
     notebook = saved, chatHistory = [], isChatOpen = False, selectedStoryWordIds = [],
     audioLoadingId = None, alerts = [] \<rparr>"

definition alert :: "string \<Rightarrow> app_state \<Rightarrow> app_state" where
  "alert msg s = s\<lparr>alerts := alerts s @ [msg]\<rparr>"

subsection \<open>Notebook\<close>

text \<open>\<open>notebook.find(n => n.id === currentEntry.id)\<close>\<close>

definition find_by_id :: "DictionaryEntry list \<Rightarrow> string \<Rightarrow> DictionaryEntry option" where
  "find_by_id nb i = List.find (\<lambda>n. id_entry n = i) nb"

definition addToNotebook :: "app_state \<Rightarrow> app_state" where
  "addToNotebook s =
     (case currentEntry s of
        None \<Rightarrow> s
      | Some e \<Rightarrow>
          (if find_by_id (notebook s) (id_entry e) = None
           then s\<lparr>notebook := e # notebook s\<rparr>
           else s))"

text \<open>Showing an entry and pressing the add button, for one entry after another.\<close>

definition add_entry :: "app_state \<Rightarrow> DictionaryEntry \<Rightarrow> app_state" where
  "add_entry s e = addToNotebook (s\<lparr>currentEntry := Some e\<rparr>)"

definition add_entries :: "app_state \<Rightarrow> DictionaryEntry list \<Rightarrow> app_state" where
  "add_entries s es = foldl add_entry s es"

subsection \<open>Story word selection\<close>

definition toggleStoryWordSelection :: "string \<Rightarrow> app_state \<Rightarrow> app_state" where
  "toggleStoryWordSelection i s =
     (if i \<in> set (selectedStoryWordIds s)
      then s\<lparr>selectedStoryWordIds := filter (\<lambda>wId. wId \<noteq> i) (selectedStoryWordIds s)\<rparr>
      else if length (selectedStoryWordIds s) \<ge> 5
           then alert ''You can only select up to 5 words!'' s
           else s\<lparr>selectedStoryWordIds := selectedStoryWordIds s @ [i]\<rparr>)"

definition toggles :: "app_state \<Rightarrow> string list \<Rightarrow> app_state" where
  "toggles s ids = foldl (\<lambda>s i. toggleStoryWordSelection i s) s ids"

text \<open>An entry with the given id, for concrete runs.\<close>

definition sample_entry :: "string \<Rightarrow> DictionaryEntry" where
  "sample_entry i = \<lparr> id_entry = i, term_entry = ''brick'', translatedTerm = JStr ''ladrillo'',
     definitionTarget = JStr ''Bloque de arcilla'', definitionNative = JStr ''A block of clay'',
     examples = JArr [], scenario = JArr [], usageNote = JStr ''Common word'',
     imageUrl = None, sourceLang = ''en'', targetLang = ''es'', createdAt = 0 \<rparr>"

section \<open>The generation service\<close>

text \<open>
  \<open>ai.models.generateContent\<close> is the remote service. What it answers is not the
  program's to decide, so each function below takes as an argument the outcome that its
  request gets if it is made: the promise rejects (\<open>Threw\<close>) or resolves with a
  response. Every field of a response may be missing.
\<close>

datatype 'a remote = Threw | Returned 'a

record InlineData =
  mimeType :: "string option"
  data :: "string option"

record Part =
  inlineData :: "InlineData option"

record Content =
  parts :: "Part list option"

record Candidate =
  content :: "Content option"

record GenerateContentResponse =
  text_resp :: "string option"
  candidates :: "Candidate list option"

text \<open>\<open>response.candidates?.[0]?.content?.parts\<close>\<close>

definition first_candidate_parts :: "GenerateContentResponse \<Rightarrow> Part list option" where
  "first_candidate_parts response =
     (case candidates response of
        None \<Rightarrow> None
      | Some [] \<Rightarrow> None
      | Some (c # _) \<Rightarrow> (case content c of None \<Rightarrow> None | Some ct \<Rightarrow> parts ct))"

section \<open>geminiService.ts: text to speech, with its cache\<close>

text \<open>
  The module-level \<open>ttsCache\<close> and, to count them, the texts sent to the remote
  text-to-speech model so far.
\<close>

record speech_world =
  ttsCache :: "string \<rightharpoonup> string"
  tts_requests :: "string list"

definition fresh_speech_world :: speech_world where
  "fresh_speech_world = \<lparr> ttsCache = Map.empty, tts_requests = [] \<rparr>"

text \<open>\<open>response.candidates?.[0]?.content?.parts?.[0]\<close> followed by \<open>part?.inlineData?.data\<close>.\<close>

definition tts_audio_data :: "GenerateContentResponse \<Rightarrow> string option" where
  "tts_audio_data response =
     (case first_candidate_parts response of
        None \<Rightarrow> None
      | Some [] \<Rightarrow> None
      | Some (part # _) \<Rightarrow> (case inlineData part of None \<Rightarrow> None | Some d \<Rightarrow> data d))"

text \<open>
  \<open>generateSpeech\<close> is asynchronous: it runs up to its \<open>await\<close>, and continues when
  the request has settled; in between, other handlers run, and so may other calls of
  \<open>generateSpeech\<close>. The cache is read before the \<open>await\<close> and written after it.

  The first part either returns at once (empty text, or a cache hit) or sends the request
  and waits.
\<close>

datatype speech_call = Finished "string option" | Awaiting

definition generateSpeech_start :: "string \<Rightarrow> speech_world \<Rightarrow> speech_call \<times> speech_world" where
  "generateSpeech_start text w =
     (if text = [] then (Finished None, w)
      else case ttsCache w text of
        Some cached \<Rightarrow> (Finished (Some cached), w)
      | None \<Rightarrow> (Awaiting, w\<lparr>tts_requests := tts_requests w @ [text]\<rparr>))"

text \<open>
  The \<open>try\<close> block from the point where the request has settled: its rejection is the
  one exception that can arise there. An empty \<open>data\<close> string is falsy, like a missing
  one. The world is the one the call finds when it continues.
\<close>

definition generateSpeech_settled ::
  "GenerateContentResponse remote \<Rightarrow> string \<Rightarrow> speech_world
     \<Rightarrow> (js_error + string option) \<times> speech_world" where
  "generateSpeech_settled reply text w =
     (case reply of
        Threw \<Rightarrow> (Inl RemoteError, w)
      | Returned response \<Rightarrow>
          (case tts_audio_data response of
             None \<Rightarrow> (Inr None, w)
           | Some audioData \<Rightarrow>
               if audioData \<noteq> []
               then (Inr (Some audioData), w\<lparr>ttsCache := (ttsCache w)(text \<mapsto> audioData)\<rparr>)
               else (Inr None, w)))"

text \<open>The second part of a call: the rest of the \<open>try\<close> block under its \<open>catch\<close>.\<close>

definition generateSpeech_resume ::
  "GenerateContentResponse remote \<Rightarrow> string \<Rightarrow> speech_world
     \<Rightarrow> (js_error + string option) \<times> speech_world" where
  "generateSpeech_resume reply text w =
     (case generateSpeech_settled reply text w of
        (Inl e, w') \<Rightarrow> (Inr None, w')
      | (Inr r, w') \<Rightarrow> (Inr r, w'))"

text \<open>The whole \<open>try\<close> block when nothing runs between the request and its outcome.\<close>

definition generateSpeech_try ::
  "GenerateContentResponse remote \<Rightarrow> string \<Rightarrow> speech_world
     \<Rightarrow> (js_error + string option) \<times> speech_world" where
  "generateSpeech_try reply text w =
     generateSpeech_settled reply text (w\<lparr>tts_requests := tts_requests w @ [text]\<rparr>)"

text \<open>
  A call of \<open>generateSpeech\<close> during which no other call runs: its two parts, one after
  the other.
\<close>

definition generateSpeech ::
  "GenerateContentResponse remote \<Rightarrow> string \<Rightarrow> speech_world
     \<Rightarrow> (js_error + string option) \<times> speech_world" where
  "generateSpeech reply text w =
     (case generateSpeech_start text w of
        (Finished r, w') \<Rightarrow> (Inr r, w')
      | (Awaiting, w') \<Rightarrow> generateSpeech_resume reply text w')"

text \<open>How many remote requests a step from \<open>w\<close> to \<open>w'\<close> issued.\<close>

definition remote_calls :: "speech_world \<Rightarrow> speech_world \<Rightarrow> nat" where
  "remote_calls w w' = length (tts_requests w') - length (tts_requests w)"

text \<open>A response carrying the given audio payload in its first part.\<close>

definition audio_response :: "string \<Rightarrow> GenerateContentResponse" where
  "audio_response a =
     \<lparr> text_resp = None,
       candidates = Some [\<lparr> content = Some \<lparr> parts = Some
         [\<lparr> inlineData = Some \<lparr> mimeType = Some ''audio/L16'', data = Some a \<rparr> \<rparr>] \<rparr> \<rparr>] \<rparr>"


text \<open>
  The remote text-to-speech request fails: it throws, or its response has no non-empty
  inline audio data in its first part.
\<close>

definition tts_failed :: "GenerateContentResponse remote \<Rightarrow> bool" where
  "tts_failed reply =
     (case reply of Threw \<Rightarrow> True
      | Returned r \<Rightarrow> tts_audio_data r = None \<or> tts_audio_data r = Some [])"

section \<open>audioUtils.ts: base64\<close>

text \<open>
  \<open>atob\<close> belongs to the platform. It is written here after the forgiving-base64 decode
  of the WHATWG Infra standard, which is what \<open>atob\<close> runs: ASCII whitespace is dropped;
  when the length is a multiple of 4, one or two trailing \<open>=\<close> are dropped; a length of
  1 modulo 4 or a character outside the alphabet is an \<open>InvalidCharacterError\<close>;
  every character contributes 6 bits, every 24 bits give three bytes, and of 12 or 18
  remaining bits the last 4 or 2 are discarded. Bytes are numbers below 256 here and
  characters of the binary string that \<open>atob\<close> returns.
\<close>

definition is_ascii_whitespace :: "char \<Rightarrow> bool" where
  "is_ascii_whitespace c = ((of_char c :: nat) \<in> {9, 10, 12, 13, 32})"

definition b64_index :: "char \<Rightarrow> nat option" where
  "b64_index c =
     (let n = (of_char c :: nat) in
      if 65 \<le> n \<and> n \<le> 90 then Some (n - 65)
      else if 97 \<le> n \<and> n \<le> 122 then Some (n - 71)
      else if 48 \<le> n \<and> n \<le> 57 then Some (n + 4)
      else if n = 43 then Some 62
      else if n = 47 then Some 63
      else None)"

definition strip_padding :: "string \<Rightarrow> string" where
  "strip_padding d =
     (case rev d of
        a # b # r \<Rightarrow> if a = CHR ''='' \<and> b = CHR ''='' then rev r
                     else if a = CHR ''='' then rev (b # r) else d
      | [a] \<Rightarrow> if a = CHR ''='' then [] else d
      | [] \<Rightarrow> d)"

fun decode_sextets :: "nat list \<Rightarrow> nat list" where
  "decode_sextets (a # b # c # d # rest) =
     (let n = ((a * 64 + b) * 64 + c) * 64 + d
      in [n div 65536, (n div 256) mod 256, n mod 256] @ decode_sextets rest)"
| "decode_sextets [a, b, c] =
     (let n = ((a * 64 + b) * 64 + c) div 4 in [n div 256, n mod 256])"
| "decode_sextets [a, b] = [(a * 64 + b) div 16]"
| "decode_sextets [a] = []"
| "decode_sextets [] = []"

definition atob :: "string \<Rightarrow> js_error + string" where
  "atob s =
     (let d = filter (\<lambda>c. \<not> is_ascii_whitespace c) s;
          d = (if length d mod 4 = 0 then strip_padding d else d)
      in if length d mod 4 = 1 then Inl InvalidCharacterError
         else if list_ex (\<lambda>c. b64_index c = None) d then Inl InvalidCharacterError
         else Inr (map char_of (decode_sextets (map (\<lambda>c. the (b64_index c)) d))))"

text \<open>
  The loop of \<open>decodeBase64\<close>: \<open>bytes[i] = binaryString.charCodeAt(i)\<close> for \<open>i\<close> from 0
  up to the length, on an array that starts as zeros. Storing into a \<open>Uint8Array\<close>
  keeps the number modulo 256.
\<close>

function fill_bytes :: "string \<Rightarrow> nat \<Rightarrow> 8 word list \<Rightarrow> 8 word list" where
  "fill_bytes binaryString i bytes =
     (if i < length binaryString
      then fill_bytes binaryString (i + 1)
             (bytes[i := word_of_nat (of_char (binaryString ! i))])
      else bytes)"
  by pat_completeness auto
termination
  by (relation "measure (\<lambda>(binaryString, i, bytes). length binaryString - i)") auto

definition decodeBase64 :: "string \<Rightarrow> js_error + 8 word list" where
  "decodeBase64 base64 =
     (case atob base64 of
        Inl e \<Rightarrow> Inl e
      | Inr binaryString \<Rightarrow>
          Inr (fill_bytes binaryString 0 (replicate (length binaryString) 0)))"

subsection \<open>The standard base64 encoding\<close>

text \<open>
  The encoding of RFC 4648 with padding (what \<open>btoa\<close> and the service produce): three
  bytes give four characters of the alphabet, a last group of one or two bytes gives two
  or three characters and is padded with \<open>=\<close> to four.
\<close>

definition b64_char :: "nat \<Rightarrow> char" where
  "b64_char n =
     (if n < 26 then char_of (n + 65)
      else if n < 52 then char_of (n + 71)
      else if n < 62 then char_of (n - 4)
      else if n = 62 then CHR ''+''
      else CHR ''/'')"

fun encode_sextets :: "nat list \<Rightarrow> nat list" where
  "encode_sextets (a # b # c # rest) =
     [a div 4, (a mod 4) * 16 + b div 16, (b mod 16) * 4 + c div 64, c mod 64]
       @ encode_sextets rest"
| "encode_sextets [a, b] = [a div 4, (a mod 4) * 16 + b div 16, (b mod 16) * 4]"
| "encode_sextets [a] = [a div 4, (a mod 4) * 16]"
| "encode_sextets [] = []"

definition base64_encode :: "8 word list \<Rightarrow> string" where
  "base64_encode bytes =
     map b64_char (encode_sextets (map unat bytes))
       @ replicate ((3 - length bytes mod 3) mod 3) (CHR ''='')"

section \<open>audioUtils.ts: decoding audio\<close>

text \<open>
  An element of a \<open>Float32Array\<close>. The only numbers the code stores are 16-bit integers
  divided by \<open>32768\<close>; such a quotient has at most 16 significant bits, a 32-bit float
  holds it exactly, and so it is kept as a rational. \<open>undefined / 32768.0\<close> is \<open>NaN\<close>.
\<close>

datatype sample = Sample rat | NaN

text \<open>An \<open>AudioBuffer\<close>: its sample rate and one array of frames for each channel.\<close>

record AudioBuffer =
  sampleRate :: nat
  channelData :: "sample list list"

text \<open>
  The \<open>AudioContext\<close> belongs to the platform. Its own decoder is any function from
  bytes to a buffer, \<open>None\<close> when the promise rejects. \<open>createBuffer\<close> is written after
  the Web Audio standard: it throws \<open>NotSupportedError\<close> for fewer than one channel or
  more than the implementation supports, for a length below one frame, and for a sample
  rate outside of the range the implementation supports; the buffer it makes is silent.
  Its length parameter is an \<open>unsigned long\<close>: a fractional number is truncated and
  taken modulo \<open>2 ^ 32\<close>.
\<close>

record AudioContext =
  native_decodeAudioData :: "8 word list \<Rightarrow> AudioBuffer option"
  max_channels :: nat
  min_sampleRate :: nat
  max_sampleRate :: nat

definition unsigned_long :: "rat \<Rightarrow> nat" where
  "unsigned_long x = nat \<lfloor>x\<rfloor> mod 2 ^ 32"

definition createBuffer :: "AudioContext \<Rightarrow> nat \<Rightarrow> rat \<Rightarrow> nat \<Rightarrow> js_error + AudioBuffer" where
  "createBuffer ctx numberOfChannels len rate =
     (if numberOfChannels < 1 \<or> numberOfChannels > max_channels ctx
         \<or> unsigned_long len < 1
         \<or> rate < min_sampleRate ctx \<or> rate > max_sampleRate ctx
      then Inl NotSupportedError
      else Inr \<lparr> sampleRate = rate,
                 channelData = replicate numberOfChannels
                                 (replicate (unsigned_long len) (Sample 0)) \<rparr>)"

text \<open>
  \<open>new Int16Array(data.buffer)\<close>, \<open>data\<close> being a \<open>Uint8Array\<close> that covers its whole
  buffer, as the one \<open>decodeBase64\<close> makes: a \<open>RangeError\<close> unless the byte length is
  a multiple of 2, else one element for every two bytes, low byte first.
\<close>

fun int16_elements :: "8 word list \<Rightarrow> 16 word list" where
  "int16_elements (lo # hi # rest) = word_cat hi lo # int16_elements rest"
| "int16_elements [b] = []"
| "int16_elements [] = []"

definition Int16Array :: "8 word list \<Rightarrow> js_error + 16 word list" where
  "Int16Array buffer =
     (if length buffer mod 2 \<noteq> 0 then Inl RangeError else Inr (int16_elements buffer))"

text \<open>\<open>dataInt16[k] / 32768.0\<close>; an index past the end reads \<open>undefined\<close>.\<close>

definition int16_sample :: "16 word list \<Rightarrow> nat \<Rightarrow> sample" where
  "int16_sample dataInt16 k =
     (if k < length dataInt16 then Sample (of_int (sint (dataInt16 ! k)) / 32768) else NaN)"

text \<open>
  The inner loop, \<open>i\<close> running while \<open>i < frameCount\<close>. A store past the end of a typed
  array does nothing, which is also what a list update past the end does.
\<close>

function fill_channel ::
  "16 word list \<Rightarrow> nat \<Rightarrow> nat \<Rightarrow> rat \<Rightarrow> nat \<Rightarrow> sample list \<Rightarrow> sample list" where
  "fill_channel dataInt16 numChannels channel frameCount i chData =
     (if of_nat i < frameCount
      then fill_channel dataInt16 numChannels channel frameCount (i + 1)
             (chData[i := int16_sample dataInt16 (i * numChannels + channel)])
      else chData)"
  by pat_completeness auto
termination
proof (relation "measure (\<lambda>(dataInt16, numChannels, channel, frameCount, i, chData).
                   nat \<lceil>frameCount\<rceil> - i)")
  show "wf (measure (\<lambda>(dataInt16 :: 16 word list, numChannels :: nat, channel :: nat,
                      frameCount :: rat, i :: nat, chData :: sample list).
                   nat \<lceil>frameCount\<rceil> - i))"
    by simp
next
  fix dataInt16 :: "16 word list" and numChannels channel i :: nat and frameCount :: rat
    and chData :: "sample list"
  assume "of_nat i < frameCount"
  then have "int i < \<lceil>frameCount\<rceil>" by (simp add: less_ceiling_iff)
  then have "i < nat \<lceil>frameCount\<rceil>" by simp
  then show "((dataInt16, numChannels, channel, frameCount, i + 1,
               chData[i := int16_sample dataInt16 (i * numChannels + channel)]),
              (dataInt16, numChannels, channel, frameCount, i, chData))
        \<in> measure (\<lambda>(dataInt16, numChannels, channel, frameCount, i, chData).
                     nat \<lceil>frameCount\<rceil> - i)"
    by simp
qed

declare fill_channel.simps [simp del]

text \<open>
  The outer loop over the channels; \<open>getChannelData(channel)\<close> is the buffer's own array
  of that channel, so the stores of the inner loop land in the buffer.
\<close>

function fill_channels ::
  "16 word list \<Rightarrow> nat \<Rightarrow> rat \<Rightarrow> nat \<Rightarrow> AudioBuffer \<Rightarrow> AudioBuffer" where
  "fill_channels dataInt16 numChannels frameCount channel buffer =
     (if channel < numChannels
      then fill_channels dataInt16 numChannels frameCount (channel + 1)
             (buffer\<lparr>channelData := (channelData buffer)
                [channel := fill_channel dataInt16 numChannels channel frameCount 0
                              (channelData buffer ! channel)]\<rparr>)
      else buffer)"
  by pat_completeness auto
termination
  by (relation "measure (\<lambda>(dataInt16, numChannels, frameCount, channel, buffer).
                  numChannels - channel)") auto

declare fill_channels.simps [simp del]

text \<open>
  \<open>decodeAudioData(data, ctx, sampleRate = 24000, numChannels = 1)\<close>: the platform decoder
  first; when it rejects, the bytes are read as 16-bit samples. What is thrown inside the
  \<open>catch\<close> block leaves the function.
\<close>

definition decodeAudioData ::
  "8 word list \<Rightarrow> AudioContext \<Rightarrow> nat \<Rightarrow> nat \<Rightarrow> js_error + AudioBuffer" where
  "decodeAudioData dataBytes ctx rate numChannels =
     (case native_decodeAudioData ctx dataBytes of
        Some decoded \<Rightarrow> Inr decoded
      | None \<Rightarrow>
          (case Int16Array dataBytes of
             Inl e \<Rightarrow> Inl e
           | Inr dataInt16 \<Rightarrow>
               (let frameCount = of_nat (length dataInt16) / of_nat numChannels in
                case createBuffer ctx numChannels frameCount rate of
                  Inl e \<Rightarrow> Inl e
                | Inr buffer \<Rightarrow> Inr (fill_channels dataInt16 numChannels frameCount 0 buffer))))"

text \<open>An audio context whose own decoder rejects every payload, for concrete runs.\<close>

definition rejecting_ctx :: AudioContext where
  "rejecting_ctx = \<lparr> native_decodeAudioData = (\<lambda>bytes. None), max_channels = 32,
     min_sampleRate = 8000, max_sampleRate = 96000 \<rparr>"

text \<open>
  What "linear16" says, in arithmetic: two bytes, low byte first, are a number below
  \<open>65536\<close>, which stands for a negative value from \<open>32768\<close> on; sample \<open>k\<close> of a
  payload is the value of bytes \<open>2k\<close> and \<open>2k + 1\<close> divided by \<open>32768\<close>.
\<close>

definition le_int16 :: "8 word \<Rightarrow> 8 word \<Rightarrow> int" where
  "le_int16 lo hi =
     (let u = uint lo + 256 * uint hi in if u < 32768 then u else u - 65536)"

definition linear16_sample :: "8 word list \<Rightarrow> nat \<Rightarrow> rat" where
  "linear16_sample dataBytes k =
     of_int (le_int16 (dataBytes ! (2 * k)) (dataBytes ! (2 * k + 1))) / 32768"

subsection \<open>AudioPlayer\<close>



section \<open>App: playing audio\<close>















section \<open>geminiService.ts: dictionary lookup and concept image\<close>

text \<open>\<open>text.replace(/```json|```/g, '').trim()\<close>: one pass from the left, the longer fence first.\<close>

fun remove_fences :: "string \<Rightarrow> string" where
  "remove_fences [] = []"
| "remove_fences (c # cs) =
     (if prefix ''```json'' (c # cs) then remove_fences (drop 6 cs)
      else if prefix ''```'' (c # cs) then remove_fences (drop 2 cs)
      else c # remove_fences cs)"

definition cleanJsonText :: "string \<Rightarrow> string" where
  "cleanJsonText t = trim (remove_fences t)"

text \<open>
  \<open>lookupWord\<close>. \<open>JSON.parse\<close> is the platform's and is an argument: a function from
  the text to the value parsed, \<open>None\<close> when it throws a \<open>SyntaxError\<close>. The term and
  the two languages only go into the prompt. The response schema is sent along with the
  request; the code itself never looks at the shape of what comes back.
\<close>

definition lookupWord ::
  "(string \<Rightarrow> json option) \<Rightarrow> GenerateContentResponse remote
     \<Rightarrow> string \<Rightarrow> string \<Rightarrow> string \<Rightarrow> js_error + json" where
  "lookupWord JSON_parse reply term sourceLanguage targetLanguage =
     (case reply of
        Threw \<Rightarrow> Inl RemoteError
      | Returned response \<Rightarrow>
          (case text_resp response of
             None \<Rightarrow> Inl (Error ''No text response'')
           | Some t \<Rightarrow>
               if t = [] then Inl (Error ''No text response'')
               else (case JSON_parse (cleanJsonText t) of
                       None \<Rightarrow> Inl (Error ''Invalid response format'')
                     | Some parsed \<Rightarrow> Inr parsed)))"

text \<open>A missing string inside a template literal prints as \<open>undefined\<close>.\<close>

definition template_str :: "string option \<Rightarrow> string" where
  "template_str x = (case x of None \<Rightarrow> ''undefined'' | Some v \<Rightarrow> v)"

fun first_inline_image :: "Part list \<Rightarrow> string option" where
  "first_inline_image [] = None"
| "first_inline_image (part # rest) =
     (case inlineData part of
        Some d \<Rightarrow> Some (''data:'' @ template_str (mimeType d) @ '';base64,'' @ template_str (data d))
      | None \<Rightarrow> first_inline_image rest)"

text \<open>
  \<open>generateConceptImage\<close>; its two arguments only go into the prompt, and they are
  whatever values the payload had.
\<close>

definition generateConceptImage ::
  "GenerateContentResponse remote \<Rightarrow> json \<Rightarrow> json \<Rightarrow> string option" where
  "generateConceptImage reply term context =
     (case reply of
        Threw \<Rightarrow> None
      | Returned response \<Rightarrow>
          (case first_candidate_parts response of
             None \<Rightarrow> None
           | Some ps \<Rightarrow> first_inline_image ps))"

section \<open>App: lookup\<close>

text \<open>\<open>Date.now().toString()\<close>: a number of milliseconds in decimal.\<close>

function show_nat :: "nat \<Rightarrow> string" where
  "show_nat n =
     (if n < 10 then [char_of (48 + n)]
      else show_nat (n div 10) @ [char_of (48 + n mod 10)])"
  by pat_completeness auto
termination
  by (relation "measure (\<lambda>n. n)") auto

declare show_nat.simps [simp del]

definition navigateTo :: "AppView \<Rightarrow> app_state \<Rightarrow> app_state" where
  "navigateTo newView s =
     (if newView = view s then s
      else s\<lparr>history := history s @ [view s], view := newView\<rparr>)"

text \<open>
  What one call of \<open>performLookup\<close> meets: the outcomes of its two remote requests and
  the two readings of the clock.
\<close>

record lookup_env =
  text_outcome :: "GenerateContentResponse remote"
  image_outcome :: "GenerateContentResponse remote"
  now_id :: nat
  now_createdAt :: nat

text \<open>A property of a value that is known not to be \<open>null\<close>.\<close>

definition field :: "json \<Rightarrow> string \<Rightarrow> json option" where
  "field v k = (case get_prop v k of Inl e \<Rightarrow> None | Inr x \<Rightarrow> x)"

text \<open>
  The \<open>try\<close> block of \<open>performLookup\<close>. The first property read throws a \<open>TypeError\<close>
  when the payload is \<open>null\<close>. No state is written before the entry is complete.
\<close>

definition performLookup_try ::
  "(string \<Rightarrow> json option) \<Rightarrow> lookup_env \<Rightarrow> string \<Rightarrow> app_state
     \<Rightarrow> js_error + app_state" where
  "performLookup_try JSON_parse env term s =
     (case lookupWord JSON_parse (text_outcome env) term (nativeLang s) (targetLangSel s) of
        Inl e \<Rightarrow> Inl e
      | Inr textData \<Rightarrow>
          (case get_prop textData ''translatedTerm'' of
             Inl e \<Rightarrow> Inl e
           | Inr translated \<Rightarrow>
               (let promptTerm = js_or translated (JStr term);
                    imageUrl = generateConceptImage (image_outcome env) promptTerm
                                 (js_or (field textData ''definitionNative'') (JStr []));
                    newEntry =
                      \<lparr> id_entry = show_nat (now_id env),
                        term_entry = term,
                        translatedTerm = js_or (field textData ''translatedTerm'') (JStr term),
                        definitionTarget = js_or (field textData ''definitionTarget'')
                                             (JStr ''Definition not found''),
                        definitionNative = js_or (field textData ''definitionNative'')
                                             (JStr ''Definition not found''),
                        examples = js_or (field textData ''examples'') (JArr []),
                        scenario = js_or (field textData ''scenario'') (JArr []),
                        usageNote = js_or (field textData ''usageNote'')
                                      (JStr ''No usage note available.''),
                        imageUrl = imageUrl,
                        sourceLang = nativeLang s,
                        targetLang = targetLangSel s,
                        createdAt = now_createdAt env \<rparr>
                in Inr (navigateTo RESULT (s\<lparr>currentEntry := Some newEntry\<rparr>)))))"

definition performLookup ::
  "(string \<Rightarrow> json option) \<Rightarrow> lookup_env \<Rightarrow> string \<Rightarrow> app_state \<Rightarrow> app_state" where
  "performLookup JSON_parse env term s =
     (if trim term = [] then s
      else
        let s = s\<lparr>loading := True, isChatOpen := False, chatHistory := [], searchQuery := term\<rparr>;
            s = (case performLookup_try JSON_parse env term s of
                   Inl err \<Rightarrow> alert ''Oops! We couldn't find that word. Please try again.'' s
                 | Inr s' \<Rightarrow> s')
        in s\<lparr>loading := False\<rparr>)"

text \<open>
  The image request fails: it throws, or no part of its response carries inline data.
\<close>

definition image_failed :: "GenerateContentResponse remote \<Rightarrow> bool" where
  "image_failed reply =
     (case reply of
        Threw \<Rightarrow> True
      | Returned response \<Rightarrow>
          (case first_candidate_parts response of
             None \<Rightarrow> True
           | Some ps \<Rightarrow> list_all (\<lambda>part. inlineData part = None) ps))"

text \<open>A \<open>JSON.parse\<close> of which only the result on one document is used.\<close>

definition parse_document :: "string \<Rightarrow> json \<Rightarrow> string \<Rightarrow> json option" where
  "parse_document doc v t = (if t = doc then Some v else None)"

text \<open>A response whose text is the given string.\<close>

definition text_response :: "string \<Rightarrow> GenerateContentResponse" where
  "text_response t = \<lparr> text_resp = Some t, candidates = None \<rparr>"

text \<open>The state once \<open>performLookup\<close> has passed its guard.\<close>

definition lookup_started :: "string \<Rightarrow> app_state \<Rightarrow> app_state" where
  "lookup_started term s =
     s\<lparr>loading := True, isChatOpen := False, chatHistory := [], searchQuery := term\<rparr>"

text \<open>The entry that \<open>performLookup\<close> assembles from a payload.\<close>

definition entry_of :: "json \<Rightarrow> lookup_env \<Rightarrow> string \<Rightarrow> app_state \<Rightarrow> DictionaryEntry" where
  "entry_of textData env term s =
     \<lparr> id_entry = show_nat (now_id env),
       term_entry = term,
       translatedTerm = js_or (field textData ''translatedTerm'') (JStr term),
       definitionTarget = js_or (field textData ''definitionTarget'') (JStr ''Definition not found''),
       definitionNative = js_or (field textData ''definitionNative'') (JStr ''Definition not found''),
       examples = js_or (field textData ''examples'') (JArr []),
       scenario = js_or (field textData ''scenario'') (JArr []),
       usageNote = js_or (field textData ''usageNote'') (JStr ''No usage note available.''),
       imageUrl = generateConceptImage (image_outcome env)
                    (js_or (field textData ''translatedTerm'') (JStr term))
                    (js_or (field textData ''definitionNative'') (JStr [])),
       sourceLang = nativeLang s,
       targetLang = targetLangSel s,
       createdAt = now_createdAt env \<rparr>"

text \<open>
  A response text that parses, with no example and no scenario line, the value it parses
  to, and a lookup that receives it while the image request throws.
\<close>

definition short_payload_text :: string where
  \<open>short_payload_text = ''{"translatedTerm":"ladrillo","examples":[],"scenario":[]}''\<close>

definition short_payload :: json where
  "short_payload = JObj [(''translatedTerm'', JStr ''ladrillo''), (''examples'', JArr []),
     (''scenario'', JArr [])]"

definition short_payload_env :: lookup_env where
  "short_payload_env = \<lparr> text_outcome = Returned (text_response short_payload_text),
     image_outcome = Threw, now_id = 17, now_createdAt = 17 \<rparr>"

section \<open>Story word selection: the invariant\<close>

lemma toggle_sel:
  "selectedStoryWordIds (toggleStoryWordSelection i s) =
     (if i \<in> set (selectedStoryWordIds s) then filter (\<lambda>w. w \<noteq> i) (selectedStoryWordIds s)
      else if length (selectedStoryWordIds s) \<ge> 5 then selectedStoryWordIds s
      else selectedStoryWordIds s @ [i])"
  by (simp add: toggleStoryWordSelection_def alert_def)

lemma toggle_inv:
  assumes "distinct (selectedStoryWordIds s)" "length (selectedStoryWordIds s) \<le> 5"
  shows "distinct (selectedStoryWordIds (toggleStoryWordSelection i s))
       \<and> length (selectedStoryWordIds (toggleStoryWordSelection i s)) \<le> 5"
proof (cases "i \<in> set (selectedStoryWordIds s)")
  case True
  have "length (filter (\<lambda>w. w \<noteq> i) (selectedStoryWordIds s)) \<le> 5"
    using length_filter_le [of "\<lambda>w. w \<noteq> i" "selectedStoryWordIds s"] assms(2)
    by (rule order_trans)
  with True assms show ?thesis by (simp add: toggle_sel)
next
  case False
  with assms show ?thesis by (simp add: toggle_sel)
qed

lemma toggles_inv:
  "distinct (selectedStoryWordIds s) \<Longrightarrow> length (selectedStoryWordIds s) \<le> 5 \<Longrightarrow>
   distinct (selectedStoryWordIds (toggles s ids))
     \<and> length (selectedStoryWordIds (toggles s ids)) \<le> 5"
  unfolding toggles_def
proof (induction ids arbitrary: s)
  case Nil
  then show ?case by simp
next
  case (Cons i ids)
  from toggle_inv [OF Cons.prems, of i] Cons.IH [of "toggleStoryWordSelection i s"]
  show ?case by simp
qed

text \<open>
  C9. Starting from an empty selection, after any sequence of toggles the selected story
  word ids are distinct and at most 5; toggling a selected id removes it; toggling a new
  id when 5 are selected leaves the selection as it is.
\<close>

theorem story_selection_invariant:
  "(selectedStoryWordIds s0 = [] \<longrightarrow>
      distinct (selectedStoryWordIds (toggles s0 ids))
      \<and> length (selectedStoryWordIds (toggles s0 ids)) \<le> 5)
   \<and> (i \<in> set (selectedStoryWordIds s) \<longrightarrow>
        i \<notin> set (selectedStoryWordIds (toggleStoryWordSelection i s))
        \<and> selectedStoryWordIds (toggleStoryWordSelection i s)
            = filter (\<lambda>w. w \<noteq> i) (selectedStoryWordIds s))
   \<and> (j \<notin> set (selectedStoryWordIds t) \<and> length (selectedStoryWordIds t) = 5 \<longrightarrow>
        selectedStoryWordIds (toggleStoryWordSelection j t) = selectedStoryWordIds t)"
proof (intro conjI impI)
  assume "selectedStoryWordIds s0 = []"
  then have "distinct (selectedStoryWordIds s0)" "length (selectedStoryWordIds s0) \<le> 5"
    by simp_all
  from toggles_inv [OF this, of ids]
  show "distinct (selectedStoryWordIds (toggles s0 ids))"
    and "length (selectedStoryWordIds (toggles s0 ids)) \<le> 5" by simp_all
next
  assume "i \<in> set (selectedStoryWordIds s)"
  then show "i \<notin> set (selectedStoryWordIds (toggleStoryWordSelection i s))"
    and "selectedStoryWordIds (toggleStoryWordSelection i s)
            = filter (\<lambda>w. w \<noteq> i) (selectedStoryWordIds s)"
    by (simp_all add: toggle_sel)
next
  assume "j \<notin> set (selectedStoryWordIds t) \<and> length (selectedStoryWordIds t) = 5"
  then show "selectedStoryWordIds (toggleStoryWordSelection j t) = selectedStoryWordIds t"
    by (simp add: toggle_sel)
qed

theorem story_selection_invariant_witness:
  "selectedStoryWordIds (initial_state []) = []
   \<and> selectedStoryWordIds
        (toggles (initial_state []) [''1'', ''2'', ''3'', ''2'', ''4'', ''5'', ''6'', ''7''])
       = [''1'', ''3'', ''4'', ''5'', ''6'']
   \<and> ''3'' \<in> set (selectedStoryWordIds (toggles (initial_state []) [''1'', ''3'']))
   \<and> selectedStoryWordIds
        (toggleStoryWordSelection ''3'' (toggles (initial_state []) [''1'', ''3''])) = [''1'']
   \<and> ''7'' \<notin> set (selectedStoryWordIds
                    (toggles (initial_state []) [''1'', ''2'', ''3'', ''4'', ''5'']))
   \<and> length (selectedStoryWordIds
               (toggles (initial_state []) [''1'', ''2'', ''3'', ''4'', ''5''])) = 5
   \<and> selectedStoryWordIds (toggleStoryWordSelection ''7''
         (toggles (initial_state []) [''1'', ''2'', ''3'', ''4'', ''5'']))
       = [''1'', ''2'', ''3'', ''4'', ''5'']"
  using story_selection_invariant
    [of "initial_state []" "[''1'', ''2'', ''3'', ''2'', ''4'', ''5'', ''6'', ''7'']"
        "''3''" "toggles (initial_state []) [''1'', ''3'']"
        "''7''" "toggles (initial_state []) [''1'', ''2'', ''3'', ''4'', ''5'']"]
  by (simp add: toggles_def toggle_sel initial_state_def toggleStoryWordSelection_def alert_def)

section \<open>Notebook: idempotent add, newest first\<close>

lemma find_by_id_None: "find_by_id nb i = None \<longleftrightarrow> i \<notin> id_entry ` set nb"
  by (auto simp: find_by_id_def find_None_iff)

lemma notebook_add_entry:
  "notebook (add_entry s e) =
     (if id_entry e \<in> id_entry ` set (notebook s) then notebook s else e # notebook s)"
  by (simp add: add_entry_def addToNotebook_def find_by_id_None)

lemma notebook_add_entries:
  "distinct (map id_entry es) \<Longrightarrow> id_entry ` set es \<inter> id_entry ` set (notebook s) = {} \<Longrightarrow>
   notebook (add_entries s es) = rev es @ notebook s"
  unfolding add_entries_def
proof (induction es arbitrary: s)
  case Nil
  then show ?case by simp
next
  case (Cons e es)
  from Cons.prems have fresh: "id_entry e \<notin> id_entry ` set (notebook s)" by auto
  then have nb: "notebook (add_entry s e) = e # notebook s"
    by (simp add: notebook_add_entry)
  from Cons.prems have "distinct (map id_entry es)"
    and "id_entry ` set es \<inter> id_entry ` set (notebook (add_entry s e)) = {}"
    by (auto simp: nb)
  from Cons.IH [OF this] show ?case by (simp add: nb)
qed

text \<open>
  C4. Adding an entry whose id is already in the notebook leaves the notebook as it is
  (same entries, same order, same length); adding N entries with distinct ids to an
  empty notebook yields N entries, the most recently added first.
\<close>

theorem notebook_add_idempotent:
  "(id_entry e \<in> id_entry ` set (notebook s) \<longrightarrow> add_entry s e = s\<lparr>currentEntry := Some e\<rparr>
       \<and> notebook (add_entry s e) = notebook s)
   \<and> (distinct (map id_entry es) \<and> notebook s0 = [] \<longrightarrow>
        notebook (add_entries s0 es) = rev es \<and> length (notebook (add_entries s0 es)) = length es)"
proof (intro conjI impI)
  assume "id_entry e \<in> id_entry ` set (notebook s)"
  then show "add_entry s e = s\<lparr>currentEntry := Some e\<rparr>"
    and "notebook (add_entry s e) = notebook s"
    by (simp_all add: add_entry_def addToNotebook_def find_by_id_None)
next
  assume a: "distinct (map id_entry es) \<and> notebook s0 = []"
  then have "notebook (add_entries s0 es) = rev es @ notebook s0"
    by (intro notebook_add_entries) simp_all
  with a show "notebook (add_entries s0 es) = rev es"
    and "length (notebook (add_entries s0 es)) = length es" by simp_all
qed

theorem notebook_add_idempotent_witness:
  "id_entry (sample_entry ''17'')
      \<in> id_entry ` set (notebook (add_entry (initial_state []) (sample_entry ''17'')))
   \<and> notebook (add_entry (add_entry (initial_state []) (sample_entry ''17'')) (sample_entry ''17''))
       = [sample_entry ''17'']
   \<and> distinct (map id_entry [sample_entry ''1'', sample_entry ''2'', sample_entry ''3''])
   \<and> notebook (initial_state []) = []
   \<and> notebook (add_entries (initial_state [])
                  [sample_entry ''1'', sample_entry ''2'', sample_entry ''3''])
       = [sample_entry ''3'', sample_entry ''2'', sample_entry ''1'']"
  using notebook_add_idempotent
    [of "sample_entry ''17''" "add_entry (initial_state []) (sample_entry ''17'')"
        "[sample_entry ''1'', sample_entry ''2'', sample_entry ''3'']" "initial_state []"]
  by (simp add: notebook_add_entry initial_state_def sample_entry_def)

section \<open>Speech: memoization, soft failure, cache on failure\<close>

lemma generateSpeech_try_unfold:
  "generateSpeech_try reply text w =
     (let w1 = w\<lparr>tts_requests := tts_requests w @ [text]\<rparr> in
      case reply of
        Threw \<Rightarrow> (Inl RemoteError, w1)
      | Returned response \<Rightarrow>
          (case tts_audio_data response of
             None \<Rightarrow> (Inr None, w1)
           | Some audioData \<Rightarrow>
               if audioData \<noteq> []
               then (Inr (Some audioData), w1\<lparr>ttsCache := (ttsCache w1)(text \<mapsto> audioData)\<rparr>)
               else (Inr None, w1)))"
  by (simp add: generateSpeech_try_def generateSpeech_settled_def Let_def)

lemma generateSpeech_unfold:
  "generateSpeech reply text w =
     (if text = [] then (Inr None, w)
      else case ttsCache w text of
        Some cached \<Rightarrow> (Inr (Some cached), w)
      | None \<Rightarrow>
          (case generateSpeech_try reply text w of
             (Inl e, w') \<Rightarrow> (Inr None, w')
           | (Inr r, w') \<Rightarrow> (Inr r, w')))"
  by (simp add: generateSpeech_def generateSpeech_start_def generateSpeech_resume_def
        generateSpeech_try_def split: option.splits)

lemma generateSpeech_empty: "generateSpeech reply [] w = (Inr None, w)"
  by (simp add: generateSpeech_unfold)

lemma generateSpeech_hit:
  "t \<noteq> [] \<Longrightarrow> ttsCache w t = Some a \<Longrightarrow> generateSpeech reply t w = (Inr (Some a), w)"
  by (simp add: generateSpeech_unfold)

lemma generateSpeech_stored:
  "t \<noteq> [] \<Longrightarrow> ttsCache w t = None \<Longrightarrow> tts_audio_data r = Some a \<Longrightarrow> a \<noteq> [] \<Longrightarrow>
   generateSpeech (Returned r) t w =
     (Inr (Some a), w\<lparr>tts_requests := tts_requests w @ [t], ttsCache := (ttsCache w)(t \<mapsto> a)\<rparr>)"
  by (simp add: generateSpeech_unfold generateSpeech_try_unfold)

lemma generateSpeech_failed:
  "t \<noteq> [] \<Longrightarrow> ttsCache w t = None \<Longrightarrow> tts_failed reply \<Longrightarrow>
   generateSpeech reply t w = (Inr None, w\<lparr>tts_requests := tts_requests w @ [t]\<rparr>)"
  by (auto simp: generateSpeech_unfold generateSpeech_try_unfold tts_failed_def
           split: remote.splits option.splits)

lemma generateSpeech_miss_requests:
  "t \<noteq> [] \<Longrightarrow> ttsCache w t = None \<Longrightarrow>
   tts_requests (snd (generateSpeech reply t w)) = tts_requests w @ [t]"
  by (auto simp: generateSpeech_unfold generateSpeech_try_unfold Let_def
           split: remote.splits option.splits)

lemma generateSpeech_cache_other:
  "u \<noteq> t \<Longrightarrow> ttsCache (snd (generateSpeech reply t w)) u = ttsCache w u"
  by (auto simp: generateSpeech_unfold generateSpeech_try_unfold Let_def
           split: remote.splits option.splits)

lemma generateSpeech_start_miss:
  "t \<noteq> [] \<Longrightarrow> ttsCache w t = None \<Longrightarrow>
   generateSpeech_start t w = (Awaiting, w\<lparr>tts_requests := tts_requests w @ [t]\<rparr>)"
  by (simp add: generateSpeech_start_def)

lemma generateSpeech_start_hit:
  "t \<noteq> [] \<Longrightarrow> ttsCache w t = Some a \<Longrightarrow> generateSpeech_start t w = (Finished (Some a), w)"
  by (simp add: generateSpeech_start_def)

lemma generateSpeech_resume_stored:
  "tts_audio_data r = Some a \<Longrightarrow> a \<noteq> [] \<Longrightarrow>
   generateSpeech_resume (Returned r) t w = (Inr (Some a), w\<lparr>ttsCache := (ttsCache w)(t \<mapsto> a)\<rparr>)"
  by (simp add: generateSpeech_resume_def generateSpeech_settled_def)

lemma generateSpeech_resume_requests:
  "tts_requests (snd (generateSpeech_resume reply t w)) = tts_requests w"
  by (auto simp: generateSpeech_resume_def generateSpeech_settled_def
           split: remote.splits option.splits)

text \<open>
  C3, as stated, fails. When the remote request of the first call throws, nothing is
  cached, and a second call with the same text, made after the first has returned,
  issues a second request. And when the second call starts while the first still waits
  for its request, as the pre-fetch of an entry and a press on Listen do, both calls
  send a request although both requests return audio data.
\<close>

theorem speech_same_text_twice_counterexample:
  "remote_calls fresh_speech_world
     (snd (generateSpeech Threw ''hola'' (snd (generateSpeech Threw ''hola'' fresh_speech_world)))) = 2
   \<and> fst (generateSpeech Threw ''hola'' (snd (generateSpeech Threw ''hola'' fresh_speech_world)))
       = Inr None
   \<and> fst (generateSpeech_start ''hola'' fresh_speech_world) = Awaiting
   \<and> fst (generateSpeech_start ''hola'' (snd (generateSpeech_start ''hola'' fresh_speech_world)))
       = Awaiting
   \<and> remote_calls fresh_speech_world
        (snd (generateSpeech_resume (Returned (audio_response ''AIA='')) ''hola''
          (snd (generateSpeech_resume (Returned (audio_response ''AIA='')) ''hola''
            (snd (generateSpeech_start ''hola''
              (snd (generateSpeech_start ''hola'' fresh_speech_world)))))))) = 2"
  by (simp add: generateSpeech_unfold generateSpeech_try_unfold fresh_speech_world_def
        remote_calls_def generateSpeech_start_def generateSpeech_resume_requests)

text \<open>
  C3, amended. A call with a non-empty text that is not cached sends exactly one remote
  request and waits. When that request returns audio data, the call stores the payload
  under the text, in whatever state it continues, and sends nothing more. A call with a
  text that is cached when the call starts returns the cached payload at once, with no
  remote request. So when the first call has settled with audio data before the second
  call with the same text starts, the two calls cost exactly one remote request and the
  second returns the cached payload, whatever the remote service would answer. Two
  different non-empty texts, neither cached, cost two remote requests, whether the
  second call starts before or after the first has settled. The empty text gives an
  absent result at once and leaves cache and request log as they are, whatever the
  cache holds.
\<close>

theorem speech_memoized:
  "(t \<noteq> [] \<and> ttsCache w t = None \<longrightarrow>
      generateSpeech_start t w = (Awaiting, w\<lparr>tts_requests := tts_requests w @ [t]\<rparr>))
   \<and> (tts_audio_data r = Some a \<and> a \<noteq> [] \<longrightarrow>
        generateSpeech_resume (Returned r) t w'
          = (Inr (Some a), w'\<lparr>ttsCache := (ttsCache w')(t \<mapsto> a)\<rparr>))
   \<and> (t \<noteq> [] \<and> ttsCache w'' t = Some a \<longrightarrow>
        generateSpeech_start t w'' = (Finished (Some a), w'')
        \<and> generateSpeech reply2 t w'' = (Inr (Some a), w''))
   \<and> (t \<noteq> [] \<and> ttsCache w t = None \<and> tts_audio_data r = Some a \<and> a \<noteq> [] \<longrightarrow>
        fst (generateSpeech (Returned r) t w) = Inr (Some a)
        \<and> remote_calls w (snd (generateSpeech (Returned r) t w)) = 1
        \<and> generateSpeech reply2 t (snd (generateSpeech (Returned r) t w))
            = (Inr (Some a), snd (generateSpeech (Returned r) t w)))
   \<and> (t \<noteq> [] \<and> u \<noteq> [] \<and> t \<noteq> u \<and> ttsCache w t = None \<and> ttsCache w u = None \<longrightarrow>
        tts_requests (snd (generateSpeech reply2 u (snd (generateSpeech reply1 t w))))
          = tts_requests w @ [t, u]
        \<and> remote_calls w (snd (generateSpeech reply2 u (snd (generateSpeech reply1 t w)))) = 2
        \<and> tts_requests (snd (generateSpeech_resume reply2 u (snd (generateSpeech_resume reply1 t
             (snd (generateSpeech_start u (snd (generateSpeech_start t w))))))))
          = tts_requests w @ [t, u])
   \<and> generateSpeech_start [] w = (Finished None, w)
   \<and> generateSpeech reply [] w = (Inr None, w)"
proof (intro conjI impI)
  assume "t \<noteq> [] \<and> ttsCache w t = None"
  then show "generateSpeech_start t w = (Awaiting, w\<lparr>tts_requests := tts_requests w @ [t]\<rparr>)"
    by (simp add: generateSpeech_start_miss)
next
  assume "tts_audio_data r = Some a \<and> a \<noteq> []"
  then show "generateSpeech_resume (Returned r) t w'
          = (Inr (Some a), w'\<lparr>ttsCache := (ttsCache w')(t \<mapsto> a)\<rparr>)"
    by (simp add: generateSpeech_resume_stored)
next
  assume "t \<noteq> [] \<and> ttsCache w'' t = Some a"
  then show "generateSpeech_start t w'' = (Finished (Some a), w'')"
    and "generateSpeech reply2 t w'' = (Inr (Some a), w'')"
    by (simp_all add: generateSpeech_start_hit generateSpeech_hit)
next
  assume a: "t \<noteq> [] \<and> ttsCache w t = None \<and> tts_audio_data r = Some a \<and> a \<noteq> []"
  then have st: "generateSpeech (Returned r) t w =
     (Inr (Some a), w\<lparr>tts_requests := tts_requests w @ [t], ttsCache := (ttsCache w)(t \<mapsto> a)\<rparr>)"
    by (intro generateSpeech_stored) simp_all
  show "fst (generateSpeech (Returned r) t w) = Inr (Some a)" by (simp add: st)
  show "remote_calls w (snd (generateSpeech (Returned r) t w)) = 1"
    by (simp add: st remote_calls_def)
  from a show "generateSpeech reply2 t (snd (generateSpeech (Returned r) t w))
          = (Inr (Some a), snd (generateSpeech (Returned r) t w))"
    by (simp add: st generateSpeech_hit)
next
  assume a: "t \<noteq> [] \<and> u \<noteq> [] \<and> t \<noteq> u \<and> ttsCache w t = None \<and> ttsCache w u = None"
  then have r1: "tts_requests (snd (generateSpeech reply1 t w)) = tts_requests w @ [t]"
    by (intro generateSpeech_miss_requests) simp_all
  from a have "u \<noteq> t" by auto
  with a have "ttsCache (snd (generateSpeech reply1 t w)) u = None"
    by (simp add: generateSpeech_cache_other)
  with a have r2: "tts_requests (snd (generateSpeech reply2 u (snd (generateSpeech reply1 t w))))
      = tts_requests (snd (generateSpeech reply1 t w)) @ [u]"
    by (intro generateSpeech_miss_requests) simp_all
  show "tts_requests (snd (generateSpeech reply2 u (snd (generateSpeech reply1 t w))))
          = tts_requests w @ [t, u]" by (simp add: r1 r2)
  then show "remote_calls w (snd (generateSpeech reply2 u (snd (generateSpeech reply1 t w)))) = 2"
    by (simp add: remote_calls_def)
  from a show "tts_requests (snd (generateSpeech_resume reply2 u (snd (generateSpeech_resume reply1 t
             (snd (generateSpeech_start u (snd (generateSpeech_start t w))))))))
          = tts_requests w @ [t, u]"
    by (simp add: generateSpeech_resume_requests generateSpeech_start_miss)
next
  show "generateSpeech_start [] w = (Finished None, w)" by (simp add: generateSpeech_start_def)
  show "generateSpeech reply [] w = (Inr None, w)" by (rule generateSpeech_empty)
qed

theorem speech_memoized_witness:
  "''hola'' \<noteq> [] \<and> ttsCache fresh_speech_world ''hola'' = None
   \<and> tts_audio_data (audio_response ''UklGRg=='') = Some ''UklGRg=='' \<and> ''UklGRg=='' \<noteq> []
   \<and> generateSpeech_start ''hola'' fresh_speech_world
       = (Awaiting, fresh_speech_world\<lparr>tts_requests := [''hola'']\<rparr>)
   \<and> ttsCache (snd (generateSpeech_resume (Returned (audio_response ''UklGRg=='')) ''hola''
                     (fresh_speech_world\<lparr>tts_requests := [''hola'']\<rparr>))) ''hola''
       = Some ''UklGRg==''
   \<and> generateSpeech_start ''hola''
        (snd (generateSpeech_resume (Returned (audio_response ''UklGRg=='')) ''hola''
                (fresh_speech_world\<lparr>tts_requests := [''hola'']\<rparr>)))
       = (Finished (Some ''UklGRg==''),
          snd (generateSpeech_resume (Returned (audio_response ''UklGRg=='')) ''hola''
                (fresh_speech_world\<lparr>tts_requests := [''hola'']\<rparr>)))
   \<and> fst (generateSpeech (Returned (audio_response ''UklGRg=='')) ''hola'' fresh_speech_world)
       = Inr (Some ''UklGRg=='')
   \<and> remote_calls fresh_speech_world
        (snd (generateSpeech (Returned (audio_response ''UklGRg=='')) ''hola'' fresh_speech_world)) = 1
   \<and> remote_calls fresh_speech_world
        (snd (generateSpeech Threw ''hola''
           (snd (generateSpeech (Returned (audio_response ''UklGRg=='')) ''hola'' fresh_speech_world)))) = 1
   \<and> ''adios'' \<noteq> [] \<and> ''hola'' \<noteq> ''adios'' \<and> ttsCache fresh_speech_world ''adios'' = None
   \<and> remote_calls fresh_speech_world
        (snd (generateSpeech Threw ''adios'' (snd (generateSpeech Threw ''hola'' fresh_speech_world)))) = 2"
proof -
  let ?r = "audio_response ''UklGRg==''"
  let ?w1 = "fresh_speech_world\<lparr>tts_requests := [''hola'']\<rparr>"
  have d: "tts_audio_data ?r = Some ''UklGRg==''"
    by (simp add: audio_response_def tts_audio_data_def first_candidate_parts_def)
  have c: "ttsCache (snd (generateSpeech_resume (Returned ?r) ''hola'' ?w1)) ''hola''
      = Some ''UklGRg==''"
    by (simp add: generateSpeech_resume_stored [OF d])
  from speech_memoized
    [of "''hola''" fresh_speech_world ?r "''UklGRg==''" ?w1
        "snd (generateSpeech_resume (Returned ?r) ''hola'' ?w1)" Threw "''adios''" Threw Threw]
    d c
  show ?thesis
    by (simp add: generateSpeech_resume_stored [OF d] generateSpeech_start_def
          fresh_speech_world_def remote_calls_def)
qed

text \<open>
  C5. \<open>generateSpeech\<close> never raises: for every text, cache and remote outcome its
  result is a value, and when the remote request fails the value is the absent result.
\<close>

theorem speech_never_raises:
  "(\<exists>r. fst (generateSpeech reply text w) = Inr r)
   \<and> (ttsCache w text = None \<and> tts_failed reply \<longrightarrow> fst (generateSpeech reply text w) = Inr None)"
proof (intro conjI impI)
  show "\<exists>r. fst (generateSpeech reply text w) = Inr r"
    by (auto simp: generateSpeech_unfold split: option.splits prod.splits sum.splits)
next
  assume a: "ttsCache w text = None \<and> tts_failed reply"
  show "fst (generateSpeech reply text w) = Inr None"
  proof (cases "text = []")
    case True
    then show ?thesis by (simp add: generateSpeech_empty)
  next
    case False
    with a show ?thesis by (simp add: generateSpeech_failed)
  qed
qed

theorem speech_never_raises_witness:
  "ttsCache fresh_speech_world ''hola'' = None \<and> tts_failed Threw
   \<and> fst (generateSpeech Threw ''hola'' fresh_speech_world) = Inr None
   \<and> generateSpeech_try Threw ''hola'' fresh_speech_world
       = (Inl RemoteError, fresh_speech_world\<lparr>tts_requests := [''hola'']\<rparr>)"
  using speech_never_raises [of Threw "''hola''" fresh_speech_world]
  by (simp add: fresh_speech_world_def tts_failed_def generateSpeech_try_unfold)



section \<open>Base64: decoding inverts encoding\<close>

lemma lin2: "(x::nat) < 4 \<Longrightarrow> y < 16 \<Longrightarrow> x * 16 + y < 64"
  by linarith

lemma lin3: "(x::nat) < 16 \<Longrightarrow> y < 4 \<Longrightarrow> x * 4 + y < 64"
  by linarith

lemma sextet_bounds:
  fixes a b c :: nat
  assumes "a < 256" "b < 256" "c < 256"
  shows "a div 4 < 64" "(a mod 4) * 16 + b div 16 < 64" "(b mod 16) * 4 + c div 64 < 64"
     "c mod 64 < 64" "(b mod 16) * 4 < 64" "(a mod 4) * 16 < 64"
proof -
  from assms have d: "a div 4 < 64" "b div 16 < 16" "c div 64 < 4"
    by (simp_all add: less_mult_imp_div_less)
  have m: "a mod 4 < 4" "b mod 16 < 16" by simp_all
  show "a div 4 < 64" by (rule d)
  show "(a mod 4) * 16 + b div 16 < 64" using m(1) d(2) by (rule lin2)
  show "(b mod 16) * 4 + c div 64 < 64" using m(2) d(3) by (rule lin3)
  show "c mod 64 < 64" by simp
  show "(b mod 16) * 4 < 64" using lin3 [OF m(2), of 0] by simp
  show "(a mod 4) * 16 < 64" using lin2 [OF m(1), of 0] by simp
qed

lemma pack3:
  "((x * 64 + (y * 16 + p)) * 64 + (q * 4 + r)) * 64 + t
     = (4 * x + y) * 65536 + (16 * p + q) * 256 + (64 * r + (t::nat))"
  by simp

lemma pack2:
  "((x * 64 + (y * 16 + p)) * 64 + q * 4) = ((4 * x + y) * 256 + (16 * p + (q::nat))) * 4"
  by simp

lemma pack1: "(x * 64 + y * 16) = (4 * x + (y::nat)) * 16"
  by simp

lemma unpack2:
  fixes a b :: nat
  assumes "b < 256"
  shows "(a * 256 + b) div 256 = a" and "(a * 256 + b) mod 256 = b"
  using assms by simp_all

lemma unpack3:
  fixes a b c :: nat
  assumes "b < 256" "c < 256"
  shows "(a * 65536 + b * 256 + c) div 65536 = a"
    and "((a * 65536 + b * 256 + c) div 256) mod 256 = b"
    and "(a * 65536 + b * 256 + c) mod 256 = c"
proof -
  from assms have lt: "b * 256 + c < 65536" by linarith
  have "(a * 65536 + (b * 256 + c)) div 65536 = a" using lt by simp
  then show "(a * 65536 + b * 256 + c) div 65536 = a" by (simp add: add.assoc)
  have e: "a * 65536 + b * 256 + c = (a * 256 + b) * 256 + c" by simp
  show "((a * 65536 + b * 256 + c) div 256) mod 256 = b"
    by (simp only: e unpack2 [OF assms(2)] unpack2 [OF assms(1)])
  show "(a * 65536 + b * 256 + c) mod 256 = c"
    by (simp only: e unpack2 [OF assms(2)])
qed

lemma group3:
  fixes a b c :: nat
  assumes "b < 256" "c < 256"
  defines "n \<equiv> ((a div 4 * 64 + (a mod 4 * 16 + b div 16)) * 64 + (b mod 16 * 4 + c div 64)) * 64
               + c mod 64"
  shows "n div 65536 = a" "(n div 256) mod 256 = b" "n mod 256 = c"
proof -
  have "n = (4 * (a div 4) + a mod 4) * 65536 + (16 * (b div 16) + b mod 16) * 256
              + (64 * (c div 64) + c mod 64)"
    unfolding n_def by (rule pack3)
  then have n: "n = a * 65536 + b * 256 + c" by (simp only: mult_div_mod_eq)
  show "n div 65536 = a" "(n div 256) mod 256 = b" "n mod 256 = c"
    unfolding n by (rule unpack3 [OF assms(1,2)])+
qed

lemma group2:
  fixes a b :: nat
  assumes "b < 256"
  defines "n \<equiv> ((a div 4 * 64 + (a mod 4 * 16 + b div 16)) * 64 + b mod 16 * 4) div 4"
  shows "n div 256 = a" "n mod 256 = b"
proof -
  have "(a div 4 * 64 + (a mod 4 * 16 + b div 16)) * 64 + b mod 16 * 4
      = ((4 * (a div 4) + a mod 4) * 256 + (16 * (b div 16) + b mod 16)) * 4"
    by (rule pack2)
  then have "n = ((a * 256 + b) * 4) div 4" unfolding n_def by (simp only: mult_div_mod_eq)
  then have n: "n = a * 256 + b" by simp
  show "n div 256 = a" "n mod 256 = b"
    unfolding n by (rule unpack2 [OF assms(1)])+
qed

lemma group1:
  fixes a :: nat
  shows "(a div 4 * 64 + a mod 4 * 16) div 16 = a"
proof -
  have "a div 4 * 64 + a mod 4 * 16 = (4 * (a div 4) + a mod 4) * 16" by (rule pack1)
  then have "a div 4 * 64 + a mod 4 * 16 = a * 16" by (simp only: mult_div_mod_eq)
  then show ?thesis by simp
qed

lemma decode_encode_sextets:
  "\<forall>x \<in> set bs. x < 256 \<Longrightarrow> decode_sextets (encode_sextets bs) = bs"
proof (induction bs rule: encode_sextets.induct)
  case (1 a b c rest)
  then have lt: "b < 256" "c < 256" and r: "decode_sextets (encode_sextets rest) = rest"
    by simp_all
  show ?case
    by (simp only: encode_sextets.simps decode_sextets.simps append.simps Let_def
          group3 [OF lt] r)
next
  case (2 a b)
  then have lt: "b < 256" by simp
  show ?case
    by (simp only: encode_sextets.simps decode_sextets.simps Let_def group2 [OF lt])
next
  case (3 a)
  show ?case
    by (simp only: encode_sextets.simps decode_sextets.simps group1)
next
  case 4
  show ?case by simp
qed

lemma encode_sextets_bound:
  "\<forall>x \<in> set bs. x < 256 \<Longrightarrow> \<forall>n \<in> set (encode_sextets bs). n < 64"
proof (induction bs rule: encode_sextets.induct)
  case (1 a b c rest)
  then have "a < 256" "b < 256" "c < 256" by simp_all
  from sextet_bounds [OF this] 1 show ?case by simp
next
  case (2 a b)
  then have "a < 256" "b < 256" "b < 256" by simp_all
  from sextet_bounds [OF this] show ?case by simp
next
  case (3 a)
  then have "a < 256" "a < 256" "a < 256" by simp_all
  from sextet_bounds [OF this] show ?case by simp
next
  case 4
  then show ?case by simp
qed

lemma length_encode_sextets:
  "length (encode_sextets bs) mod 4 = (if length bs mod 3 = 0 then 0 else length bs mod 3 + 1)"
  by (induction bs rule: encode_sextets.induct) simp_all




lemma b64_index_char: "n < 64 \<Longrightarrow> b64_index (b64_char n) = Some n"
  by (auto simp: b64_index_def b64_char_def Let_def)


lemma b64_char_not_pad: "n < 64 \<Longrightarrow> b64_char n \<noteq> CHR ''=''"
  using b64_index_char [of n] by (auto simp: b64_index_def)


lemma b64_char_not_ws: "n < 64 \<Longrightarrow> \<not> is_ascii_whitespace (b64_char n)"
  using b64_index_char [of n]
  by (auto simp: b64_index_def is_ascii_whitespace_def Let_def split: if_splits)


lemma strip_padding_append:
  assumes "CHR ''='' \<notin> set ds" "k \<le> 2"
  shows "strip_padding (ds @ replicate k (CHR ''='')) = ds"
proof -
  have nohd: "\<And>a r. rev ds = a # r \<Longrightarrow> a \<noteq> CHR ''=''"
  proof -
    fix a r assume "rev ds = a # r"
    then have "a \<in> set (rev ds)" by simp
    with assms(1) show "a \<noteq> CHR ''=''" by auto
  qed
  from assms(2) consider "k = 0" | "k = 1" | "k = 2" by linarith
  then show ?thesis
  proof cases
    case 1
    then show ?thesis
      using nohd by (cases "rev ds") (auto simp: strip_padding_def split: list.splits)
  next
    case 2
    then show ?thesis
      using nohd by (cases "rev ds") (auto simp: strip_padding_def split: list.splits)
  next
    case 3
    then have "replicate k (CHR ''='') = [CHR ''='', CHR ''='']"
      by (simp add: numeral_2_eq_2)
    then show ?thesis by (simp add: strip_padding_def)
  qed
qed


lemma fill_bytes_map:
  "i \<le> length bs \<Longrightarrow> length bytes = length bs \<Longrightarrow>
   fill_bytes bs i bytes = take i bytes @ map (\<lambda>c. word_of_nat (of_char c)) (drop i bs)"
proof (induction bs i bytes rule: fill_bytes.induct)
  case (1 bs i bytes)
  show ?case
  proof (cases "i < length bs")
    case True
    let ?f = "\<lambda>c. word_of_nat (of_char c) :: 8 word"
    from True 1 have "fill_bytes bs i bytes
        = take (i + 1) (bytes[i := ?f (bs ! i)]) @ map ?f (drop (i + 1) bs)"
      by simp
    also from True 1 have "take (i + 1) (bytes[i := ?f (bs ! i)]) = take i bytes @ [?f (bs ! i)]"
      by (simp add: take_Suc_conv_app_nth)
    also from True have "drop i bs = bs ! i # drop (i + 1) bs"
      by (simp add: Cons_nth_drop_Suc)
    then have "(take i bytes @ [?f (bs ! i)]) @ map ?f (drop (i + 1) bs)
        = take i bytes @ map ?f (drop i bs)" by simp
    finally show ?thesis .
  next
    case False
    with 1 show ?thesis by simp
  qed
qed


lemma byte_char_roundtrip: "word_of_nat (of_char (char_of (unat (w :: 8 word)))) = w"
proof -
  have "unat w < 256" using unsigned_less [of w, where 'a = nat] by simp
  then show ?thesis by simp
qed



lemma atob_base64_encode: "atob (base64_encode bytes) = Inr (map (\<lambda>w. char_of (unat w)) bytes)"
proof -
  define bs where "bs = map unat bytes"
  define S where "S = encode_sextets bs"
  define D where "D = map b64_char S"
  define k where "k = (3 - length bytes mod 3) mod 3"
  have small: "\<forall>x \<in> set bs. x < 256"
    using unsigned_less [where 'a = nat and 'b = 8] by (auto simp: bs_def)
  from encode_sextets_bound [OF small] have S64: "\<forall>n \<in> set S. n < 64" by (simp add: S_def)
  have enc: "base64_encode bytes = D @ replicate k (CHR ''='')"
    by (simp add: base64_encode_def D_def S_def bs_def k_def)
  have nopad: "CHR ''='' \<notin> set D"
  proof
    assume "CHR ''='' \<in> set D"
    then obtain n where "n \<in> set S" "b64_char n = CHR ''=''" by (auto simp: D_def)
    with S64 b64_char_not_pad [of n] show False by simp
  qed
  have k2: "k \<le> 2" unfolding k_def by linarith
  have "filter (\<lambda>c. \<not> is_ascii_whitespace c) D = D"
    using S64 b64_char_not_ws by (auto simp: D_def filter_id_conv)
  then have filt: "filter (\<lambda>c. \<not> is_ascii_whitespace c) (D @ replicate k (CHR ''=''))
      = D @ replicate k (CHR ''='')"
    by (simp add: is_ascii_whitespace_def)
  have lenD: "length D mod 4 = (if length bs mod 3 = 0 then 0 else length bs mod 3 + 1)"
    unfolding D_def S_def length_map by (rule length_encode_sextets)
  have lb: "length bs = length bytes" by (simp add: bs_def)
  have "length bytes mod 3 < 3" by simp
  then consider "length bytes mod 3 = 0" | "length bytes mod 3 = 1" | "length bytes mod 3 = 2"
    by linarith
  then have "(length D mod 4 + k) mod 4 = 0"
    unfolding lenD lb k_def by cases simp_all
  then have len0: "length (D @ replicate k (CHR ''='')) mod 4 = 0"
    by (simp add: mod_add_left_eq)
  have len1: "length D mod 4 \<noteq> 1" unfolding lenD by simp
  have valid: "\<not> list_ex (\<lambda>c. b64_index c = None) D"
    using S64 b64_index_char by (auto simp: D_def list_ex_iff)
  have idx: "map (\<lambda>c. the (b64_index c)) D = S"
    using S64 b64_index_char by (simp add: D_def map_idI)
  have dec: "decode_sextets S = bs" unfolding S_def by (rule decode_encode_sextets [OF small])
  have "atob (D @ replicate k (CHR ''='')) =
      (if length D mod 4 = 1 then Inl InvalidCharacterError
       else if list_ex (\<lambda>c. b64_index c = None) D then Inl InvalidCharacterError
       else Inr (map char_of (decode_sextets (map (\<lambda>c. the (b64_index c)) D))))"
    unfolding atob_def filt Let_def
    by (simp only: len0 strip_padding_append [OF nopad k2] if_True simp_thms)
  also have "\<dots> = Inr (map char_of bs)"
    using len1 valid by (simp only: idx dec if_False)
  finally show ?thesis by (simp add: enc bs_def comp_def)
qed



lemma fill_bytes_all:
  "fill_bytes bs 0 (replicate (length bs) 0) = map (\<lambda>c. word_of_nat (of_char c)) bs"
  using fill_bytes_map [of 0 bs "replicate (length bs) 0"] by simp

lemma decodeBase64_eq:
  "atob s = Inr bin \<Longrightarrow> decodeBase64 s = Inr (map (\<lambda>c. word_of_nat (of_char c)) bin)"
  by (simp only: decodeBase64_def fill_bytes_all sum.case)

text \<open>
  C10. \<open>decodeBase64\<close> is a left inverse of the standard base64 encoding: decoding the
  encoding of a byte array gives that byte array back. Whenever \<open>atob\<close> accepts the
  input, the result has the length of the binary string and its element at every index
  is the code of the character there.
\<close>

theorem decodeBase64_roundtrip:
  "decodeBase64 (base64_encode b) = Inr b
   \<and> (atob s = Inr binaryString \<longrightarrow>
        (\<exists>bytes. decodeBase64 s = Inr bytes \<and> length bytes = length binaryString
           \<and> (\<forall>i < length binaryString. bytes ! i = word_of_nat (of_char (binaryString ! i)))))"
proof (intro conjI impI)
  have "decodeBase64 (base64_encode b)
      = Inr (map (\<lambda>c. word_of_nat (of_char c)) (map (\<lambda>w. char_of (unat w)) b))"
    by (rule decodeBase64_eq [OF atob_base64_encode])
  also have "map (\<lambda>c. word_of_nat (of_char c) :: 8 word) (map (\<lambda>w. char_of (unat w)) b) = b"
    unfolding map_map comp_def byte_char_roundtrip by simp
  finally show "decodeBase64 (base64_encode b) = Inr b" .
next
  assume "atob s = Inr binaryString"
  from decodeBase64_eq [OF this]
  show "\<exists>bytes. decodeBase64 s = Inr bytes \<and> length bytes = length binaryString
           \<and> (\<forall>i < length binaryString. bytes ! i = word_of_nat (of_char (binaryString ! i)))"
    by simp
qed



lemma char_of_eq: "char_of (n::nat) = c \<longleftrightarrow> n mod 256 = of_char c"
  by (simp add: char_of_eq_iff take_bit_eq_mod)

theorem decodeBase64_roundtrip_witness:
  "atob ''TWFu'' = Inr ''Man''
   \<and> decodeBase64 ''TWFu'' = Inr [77, 97, 110]
   \<and> decodeBase64 (base64_encode [255, 0, 128, 7]) = Inr [255, 0, 128, 7]"
proof -
  have a: "atob ''TWFu'' = Inr ''Man''"
    by (simp add: atob_def is_ascii_whitespace_def strip_padding_def b64_index_def Let_def
          char_of_eq)
  have d: "decodeBase64 ''TWFu'' = Inr [77, 97, 110]"
    by (simp add: decodeBase64_eq [OF a])
  from decodeBase64_roundtrip [of "[255, 0, 128, 7]" "''TWFu''" "''Man''"] a d
  show ?thesis by simp
qed

section \<open>Audio decode: the linear16 fallback\<close>

lemma uint_word_cat16:
  fixes hi lo :: "8 word"
  shows "uint (word_cat hi lo :: 16 word) = uint hi * 256 + uint lo"
proof -
  have lo: "0 \<le> uint lo" "uint lo < 256" using uint_bounded [of lo] by simp_all
  have hi: "0 \<le> uint hi" "uint hi < 256" using uint_bounded [of hi] by simp_all
  have "(word_cat hi lo :: 16 word) = word_of_int (concat_bit 8 (uint lo) (uint hi))"
    by (subst word_cat_eq') simp
  then have "uint (word_cat hi lo :: 16 word) = concat_bit 8 (uint lo) (uint hi) mod 2 ^ 16"
    by (simp only: uint_word_of_int) simp
  also have "concat_bit 8 (uint lo) (uint hi) = uint lo mod 256 + 256 * uint hi"
    by (simp add: concat_bit_eq take_bit_eq_mod push_bit_eq_mult)
  finally have "uint (word_cat hi lo :: 16 word) = (uint lo mod 256 + 256 * uint hi) mod 65536"
    by simp
  also from lo have "uint lo mod 256 = uint lo" by simp
  also from lo hi have "(uint lo + 256 * uint hi) mod 65536 = uint lo + 256 * uint hi"
    by simp
  finally show ?thesis by simp
qed

lemma sint16:
  fixes w :: "16 word"
  shows "sint w = (if uint w < 32768 then uint w else uint w - 65536)"
proof -
  have b: "0 \<le> uint w" "uint w < 65536" using uint_bounded [of w] by simp_all
  have "sint w = (uint w + 32768) mod 65536 - 32768"
    by (simp add: sint_uint signed_take_bit_eq_take_bit_shift take_bit_eq_mod)
  also have "\<dots> = (if uint w < 32768 then uint w else uint w - 65536)"
  proof (cases "uint w < 32768")
    case True
    with b have "(uint w + 32768) mod 65536 = uint w + 32768" by simp
    with True show ?thesis by simp
  next
    case False
    with b have "(uint w + 32768) mod 65536 = uint w + 32768 - 65536"
      by (simp add: mod_pos_geq)
    with False show ?thesis by simp
  qed
  finally show ?thesis .
qed

lemma length_int16_elements: "length (int16_elements d) = length d div 2"
  by (induction d rule: int16_elements.induct) simp_all

lemma nth_int16_elements:
  "k < length d div 2 \<Longrightarrow> int16_elements d ! k = word_cat (d ! (2 * k + 1)) (d ! (2 * k))"
proof (induction d arbitrary: k rule: int16_elements.induct)
  case (1 lo hi rest)
  show ?case
  proof (cases k)
    case 0
    then show ?thesis by simp
  next
    case (Suc m)
    with 1 show ?thesis by simp
  qed
qed simp_all

lemma fill_channel_props:
  "length (fill_channel d nc ch fc i cd) = length cd
   \<and> (\<forall>j < length cd. fill_channel d nc ch fc i cd ! j
         = (if i \<le> j \<and> of_nat j < fc then int16_sample d (j * nc + ch) else cd ! j))"
proof (induction d nc ch fc i cd rule: fill_channel.induct)
  case (1 d nc ch fc i cd)
  show ?case
  proof (cases "of_nat i < fc")
    case True
    let ?cd = "cd[i := int16_sample d (i * nc + ch)]"
    have eq: "fill_channel d nc ch fc i cd = fill_channel d nc ch fc (Suc i) ?cd"
      using True by (subst fill_channel.simps) simp
    from 1 [OF True] have len: "length (fill_channel d nc ch fc (Suc i) ?cd) = length cd"
      and nth: "\<And>j. j < length cd \<Longrightarrow> fill_channel d nc ch fc (Suc i) ?cd ! j
         = (if Suc i \<le> j \<and> of_nat j < fc then int16_sample d (j * nc + ch) else ?cd ! j)"
      by simp_all
    show ?thesis
    proof (intro conjI allI impI)
      show "length (fill_channel d nc ch fc i cd) = length cd" by (simp only: eq len)
    next
      fix j assume j: "j < length cd"
      show "fill_channel d nc ch fc i cd ! j
         = (if i \<le> j \<and> of_nat j < fc then int16_sample d (j * nc + ch) else cd ! j)"
      proof (cases "j = i")
        case True
        with j \<open>of_nat i < fc\<close> show ?thesis by (simp add: eq nth)
      next
        case False
        then have "(Suc i \<le> j) = (i \<le> j)" by linarith
        with False j show ?thesis by (simp add: eq nth)
      qed
    qed
  next
    case False
    then have eq: "fill_channel d nc ch fc i cd = cd"
      by (subst fill_channel.simps) simp
    have "\<And>j. i \<le> j \<Longrightarrow> \<not> of_nat j < fc"
    proof -
      fix j :: nat assume "i \<le> j"
      then have "(of_nat i :: rat) \<le> of_nat j" by simp
      with False show "\<not> of_nat j < fc" by linarith
    qed
    then show ?thesis by (auto simp: eq)
  qed
qed


lemma fill_channels_props:
  "sampleRate (fill_channels d nc fc c buffer) = sampleRate buffer
   \<and> length (channelData (fill_channels d nc fc c buffer)) = length (channelData buffer)
   \<and> (\<forall>k < length (channelData buffer). channelData (fill_channels d nc fc c buffer) ! k
         = (if c \<le> k \<and> k < nc then fill_channel d nc k fc 0 (channelData buffer ! k)
            else channelData buffer ! k))"
proof (induction d nc fc c buffer rule: fill_channels.induct)
  case (1 d nc fc c buffer)
  show ?case
  proof (cases "c < nc")
    case True
    let ?b = "buffer\<lparr>channelData := (channelData buffer)
                [c := fill_channel d nc c fc 0 (channelData buffer ! c)]\<rparr>"
    have eq: "fill_channels d nc fc c buffer = fill_channels d nc fc (Suc c) ?b"
      using True by (subst fill_channels.simps) simp
    from 1 [OF True] have sr: "sampleRate (fill_channels d nc fc (Suc c) ?b) = sampleRate buffer"
      and len: "length (channelData (fill_channels d nc fc (Suc c) ?b))
                  = length (channelData buffer)"
      and nth: "\<And>k. k < length (channelData buffer) \<Longrightarrow>
         channelData (fill_channels d nc fc (Suc c) ?b) ! k
         = (if Suc c \<le> k \<and> k < nc then fill_channel d nc k fc 0 (channelData ?b ! k)
            else channelData ?b ! k)"
      by simp_all
    show ?thesis
    proof (intro conjI allI impI)
      show "sampleRate (fill_channels d nc fc c buffer) = sampleRate buffer"
        by (simp only: eq sr)
      show "length (channelData (fill_channels d nc fc c buffer)) = length (channelData buffer)"
        by (simp only: eq len)
    next
      fix k assume k: "k < length (channelData buffer)"
      show "channelData (fill_channels d nc fc c buffer) ! k
         = (if c \<le> k \<and> k < nc then fill_channel d nc k fc 0 (channelData buffer ! k)
            else channelData buffer ! k)"
      proof (cases "k = c")
        case True
        with k \<open>c < nc\<close> show ?thesis by (simp add: eq nth)
      next
        case False
        then have "(Suc c \<le> k) = (c \<le> k)" by linarith
        with False k show ?thesis by (simp add: eq nth)
      qed
    qed
  next
    case False
    then have eq: "fill_channels d nc fc c buffer = buffer"
      by (subst fill_channels.simps) simp
    from False show ?thesis by (auto simp: eq)
  qed
qed

lemma int16_sample_range:
  fixes w :: "16 word"
  shows "- 1 \<le> (of_int (sint w) / 32768 :: rat)" and "(of_int (sint w) / 32768 :: rat) < 1"
proof -
  have "- 32768 \<le> sint w" using sint_ge [of w] by simp
  then have "(- 32768 :: rat) \<le> of_int (sint w)" by linarith
  then show "- 1 \<le> (of_int (sint w) / 32768 :: rat)" by simp
  have "sint w < 32768" using sint_lt [of w] by simp
  then have "(of_int (sint w) :: rat) < 32768" by linarith
  then show "(of_int (sint w) / 32768 :: rat) < 1" by simp
qed

lemma frame_index:
  fixes n nc j ch :: nat
  assumes "j < n div nc" "ch < nc"
  shows "j * nc + ch < n" and "(of_nat j :: rat) < of_nat n / of_nat nc"
proof -
  from assms(2) have nc: "0 < nc" by simp
  from assms(1) have "Suc j \<le> n div nc" by simp
  then have "Suc j * nc \<le> n div nc * nc" by (rule mult_le_mono1)
  also have "\<dots> \<le> n" by simp
  finally have le: "j * nc + nc \<le> n" by simp
  with assms(2) show lt: "j * nc + ch < n" by linarith
  from le nc have "j * nc < n" by linarith
  then have "(of_nat (j * nc) :: rat) < of_nat n" by (simp only: of_nat_less_iff)
  then have "(of_nat j :: rat) * of_nat nc < of_nat n" by simp
  with nc show "(of_nat j :: rat) < of_nat n / of_nat nc"
    by (simp add: pos_less_divide_eq)
qed

lemma unsigned_long_frames:
  "n div nc < 2 ^ 32 \<Longrightarrow> unsigned_long (of_nat n / of_nat nc) = n div nc"
  by (simp add: unsigned_long_def floor_divide_of_nat_eq)

lemma sint_word_cat: "sint (word_cat hi lo :: 16 word) = le_int16 lo hi"
  by (simp add: sint16 uint_word_cat16 le_int16_def Let_def add.commute)

lemma int16_sample_linear16:
  assumes "k < length dataBytes div 2"
  shows "int16_sample (int16_elements dataBytes) k = Sample (linear16_sample dataBytes k)"
  using assms
  by (simp add: int16_sample_def length_int16_elements nth_int16_elements sint_word_cat
        linear16_sample_def)

lemma linear16_sample_range:
  "- 1 \<le> linear16_sample dataBytes k" "linear16_sample dataBytes k < 1"
  unfolding linear16_sample_def sint_word_cat [symmetric]
  by (rule int16_sample_range)+

text \<open>
  C6, amended. When the platform decoder rejects a payload of even byte length, with a
  channel count and a sample rate that the context supports and at least one frame
  (fewer than \<open>2 ^ 32\<close>), the fallback returns a buffer of that sample rate with the
  given number of channels, each of \<open>byteLength / 2\<close> div \<open>numChannels\<close> frames; frame
  \<open>i\<close> of channel \<open>c\<close> is the signed 16-bit little-endian value number
  \<open>i * numChannels + c\<close> of the payload divided by \<open>32768\<close>, which lies in \<open>[-1, 1)\<close>.
\<close>

theorem fallback_linear16:
  assumes "native_decodeAudioData ctx dataBytes = None"
    and "length dataBytes mod 2 = 0"
    and "1 \<le> numChannels" and "numChannels \<le> max_channels ctx"
    and "min_sampleRate ctx \<le> rate" and "rate \<le> max_sampleRate ctx"
    and "1 \<le> length dataBytes div 2 div numChannels"
    and "length dataBytes div 2 div numChannels < 2 ^ 32"
  shows "\<exists>buffer. decodeAudioData dataBytes ctx rate numChannels = Inr buffer
     \<and> sampleRate buffer = rate
     \<and> length (channelData buffer) = numChannels
     \<and> (\<forall>c < numChannels.
          length (channelData buffer ! c) = length dataBytes div 2 div numChannels
          \<and> (\<forall>i < length dataBytes div 2 div numChannels.
                channelData buffer ! c ! i = Sample (linear16_sample dataBytes (i * numChannels + c))
                \<and> - 1 \<le> linear16_sample dataBytes (i * numChannels + c)
                \<and> linear16_sample dataBytes (i * numChannels + c) < 1))"
proof -
  define d where "d = int16_elements dataBytes"
  define n where "n = length dataBytes div 2"
  define F where "F = n div numChannels"
  define fc :: rat where "fc = of_nat (length d) / of_nat numChannels"
  define b0 where "b0 = \<lparr> sampleRate = rate,
     channelData = replicate numChannels (replicate F (Sample 0)) \<rparr>"
  have ld: "length d = n" by (simp add: d_def n_def length_int16_elements)
  have ul: "unsigned_long fc = F"
    unfolding fc_def ld F_def using assms(8) by (intro unsigned_long_frames) (simp add: n_def)
  have arr: "Int16Array dataBytes = Inr d" using assms(2) by (simp add: Int16Array_def d_def)
  have cb: "createBuffer ctx numChannels fc rate = Inr b0"
    using assms(3-7) by (simp add: createBuffer_def ul b0_def F_def n_def)
  have dec: "decodeAudioData dataBytes ctx rate numChannels
      = Inr (fill_channels d numChannels fc 0 b0)"
    by (simp add: decodeAudioData_def assms(1) arr Let_def cb [unfolded fc_def])
       (simp add: fc_def)
  let ?buf = "fill_channels d numChannels fc 0 b0"
  note P = fill_channels_props [of d numChannels fc 0 b0]
  have len0: "length (channelData b0) = numChannels" by (simp add: b0_def)
  have sr: "sampleRate ?buf = rate" using P by (simp add: b0_def)
  have nch: "length (channelData ?buf) = numChannels" using P len0 by simp
  have chan: "channelData ?buf ! c = fill_channel d numChannels c fc 0 (replicate F (Sample 0))"
    if "c < numChannels" for c
    using P that len0 by (simp add: b0_def)
  show ?thesis
  proof (intro exI conjI allI impI)
    show "decodeAudioData dataBytes ctx rate numChannels = Inr ?buf" by (rule dec)
    show "sampleRate ?buf = rate" by (rule sr)
    show "length (channelData ?buf) = numChannels" by (rule nch)
  next
    fix c assume c: "c < numChannels"
    note Q = fill_channel_props [of d numChannels c fc 0 "replicate F (Sample 0)"]
    from Q show "length (channelData ?buf ! c) = length dataBytes div 2 div numChannels"
      by (simp add: chan [OF c] F_def n_def)
    fix i assume i: "i < length dataBytes div 2 div numChannels"
    then have iF: "i < n div numChannels" by (simp add: n_def)
    from frame_index [OF iF c] have k: "i * numChannels + c < n"
      and lt: "of_nat i < fc" by (simp_all add: fc_def ld)
    from iF have "i < F" by (simp add: F_def)
    with Q lt have "channelData ?buf ! c ! i = int16_sample d (i * numChannels + c)"
      by (simp add: chan [OF c])
    also from k have "\<dots> = Sample (linear16_sample dataBytes (i * numChannels + c))"
      unfolding d_def by (intro int16_sample_linear16) (simp add: n_def)
    finally show "channelData ?buf ! c ! i
        = Sample (linear16_sample dataBytes (i * numChannels + c))" .
    show "- 1 \<le> linear16_sample dataBytes (i * numChannels + c)"
      by (rule linear16_sample_range)
    show "linear16_sample dataBytes (i * numChannels + c) < 1"
      by (rule linear16_sample_range)
  qed
qed

text \<open>
  C6, as stated, fails: a payload of three bytes that the platform decoder rejects gives
  no buffer, \<open>new Int16Array\<close> throws a \<open>RangeError\<close> on an odd byte length; and on the
  empty payload \<open>createBuffer\<close> refuses a length of zero frames.
\<close>

theorem fallback_odd_length_counterexample:
  "native_decodeAudioData rejecting_ctx [0, 128, 255] = None
   \<and> decodeAudioData [0, 128, 255] rejecting_ctx 24000 1 = Inl RangeError
   \<and> native_decodeAudioData rejecting_ctx [] = None
   \<and> decodeAudioData [] rejecting_ctx 24000 1 = Inl NotSupportedError"
  by (simp add: decodeAudioData_def rejecting_ctx_def Int16Array_def createBuffer_def
        unsigned_long_def)

theorem fallback_linear16_witness:
  "native_decodeAudioData rejecting_ctx [0, 128, 255, 127] = None
   \<and> length [0, 128, 255, 127 :: 8 word] mod 2 = 0
   \<and> (1::nat) \<le> 1 \<and> 1 \<le> max_channels rejecting_ctx
   \<and> min_sampleRate rejecting_ctx \<le> 24000 \<and> 24000 \<le> max_sampleRate rejecting_ctx
   \<and> 1 \<le> length [0, 128, 255, 127 :: 8 word] div 2 div 1
   \<and> length [0, 128, 255, 127 :: 8 word] div 2 div 1 < 2 ^ 32
   \<and> (\<exists>buffer. decodeAudioData [0, 128, 255, 127] rejecting_ctx 24000 1 = Inr buffer
         \<and> sampleRate buffer = 24000
         \<and> length (channelData buffer) = 1
         \<and> length (channelData buffer ! 0) = 2
         \<and> channelData buffer ! 0 ! 0 = Sample (- 1)
         \<and> channelData buffer ! 0 ! 1 = Sample (32767 / 32768))"
proof -
  let ?d = "[0, 128, 255, 127 :: 8 word]"
  have h1: "native_decodeAudioData rejecting_ctx ?d = None" by (simp add: rejecting_ctx_def)
  have h2: "length ?d mod 2 = 0" by simp
  have h3: "(1::nat) \<le> 1" by simp
  have h4: "1 \<le> max_channels rejecting_ctx" by (simp add: rejecting_ctx_def)
  have h5: "min_sampleRate rejecting_ctx \<le> 24000" by (simp add: rejecting_ctx_def)
  have h6: "24000 \<le> max_sampleRate rejecting_ctx" by (simp add: rejecting_ctx_def)
  have h7: "1 \<le> length ?d div 2 div 1" by simp
  have h8: "length ?d div 2 div 1 < 2 ^ 32" by simp
  have s0: "linear16_sample ?d 0 = - 1" by (simp add: linear16_sample_def le_int16_def)
  have s1: "linear16_sample ?d 1 = 32767 / 32768"
    by (simp add: linear16_sample_def le_int16_def)
  from fallback_linear16 [OF h1 h2 h3 h4 h5 h6 h7 h8]
  obtain buffer where dec: "decodeAudioData ?d rejecting_ctx 24000 1 = Inr buffer"
    and sr: "sampleRate buffer = 24000"
    and nch: "length (channelData buffer) = 1"
    and ch: "\<forall>c < (1::nat). length (channelData buffer ! c) = length ?d div 2 div 1
          \<and> (\<forall>i < length ?d div 2 div 1.
                channelData buffer ! c ! i = Sample (linear16_sample ?d (i * 1 + c))
                \<and> - 1 \<le> linear16_sample ?d (i * 1 + c)
                \<and> linear16_sample ?d (i * 1 + c) < 1)"
    by blast
  from ch have len: "length (channelData buffer ! 0) = 2"
    and el: "\<forall>i < 2. channelData buffer ! 0 ! i = Sample (linear16_sample ?d i)"
    by simp_all
  from el have "channelData buffer ! 0 ! 0 = Sample (linear16_sample ?d 0)"
    and "channelData buffer ! 0 ! 1 = Sample (linear16_sample ?d 1)"
    by simp_all
  then have "channelData buffer ! 0 ! 0 = Sample (- 1)"
    and "channelData buffer ! 0 ! 1 = Sample (32767 / 32768)"
    by (simp_all only: s0 s1)
  with dec sr nch len h1 h2 h4 h5 h6 show ?thesis by simp
qed

section \<open>Playing audio: one request at a time\<close>













section \<open>Lookup: what makes an entry\<close>

lemma get_prop_not_null: "v \<noteq> JNull \<Longrightarrow> get_prop v k = Inr (field v k)"
  by (cases v) (simp_all add: field_def)

lemma performLookup_blank: "trim term = [] \<Longrightarrow> performLookup JSON_parse env term s = s"
  by (simp add: performLookup_def)

lemma performLookup_ok:
  assumes "trim term \<noteq> []"
    and "lookupWord JSON_parse (text_outcome env) term (nativeLang s) (targetLangSel s) = Inr v"
    and "v \<noteq> JNull"
  shows "performLookup JSON_parse env term s =
     (navigateTo RESULT ((lookup_started term s)\<lparr>currentEntry := Some (entry_of v env term s)\<rparr>))
       \<lparr>loading := False\<rparr>"
  using assms
  by (simp add: performLookup_def performLookup_try_def lookup_started_def entry_of_def Let_def
        get_prop_not_null)

lemma performLookup_failed:
  assumes "trim term \<noteq> []"
    and "lookupWord JSON_parse (text_outcome env) term (nativeLang s) (targetLangSel s) = Inl err
         \<or> lookupWord JSON_parse (text_outcome env) term (nativeLang s) (targetLangSel s) = Inr JNull"
  shows "performLookup JSON_parse env term s =
     (alert ''Oops! We couldn't find that word. Please try again.'' (lookup_started term s))
       \<lparr>loading := False\<rparr>"
  using assms
  by (auto simp: performLookup_def performLookup_try_def lookup_started_def Let_def)

lemma navigateTo_fields:
  "currentEntry (navigateTo v s) = currentEntry s" "alerts (navigateTo v s) = alerts s"
  "view (navigateTo v s) = v" "loading (navigateTo v s) = loading s"
  by (simp_all add: navigateTo_def)

lemma image_failed_None: "image_failed reply \<Longrightarrow> generateConceptImage reply a b = None"
proof -
  have "list_all (\<lambda>part. inlineData part = None) ps \<Longrightarrow> first_inline_image ps = None" for ps
    by (induction ps) simp_all
  then show "image_failed reply \<Longrightarrow> generateConceptImage reply a b = None"
    by (auto simp: image_failed_def generateConceptImage_def split: remote.splits option.splits)
qed

lemma truthy_js_or: "truthy (Some d) \<Longrightarrow> truthy (Some (js_or x d))"
  by (cases x) (auto simp: js_or_def)

lemma trim_nonempty: "trim t \<noteq> [] \<Longrightarrow> t \<noteq> []"
  by (auto simp: trim_def)


lemma clean_short: "cleanJsonText short_payload_text = short_payload_text"
  by (simp add: cleanJsonText_def short_payload_text_def trim_def is_js_space_def)

lemma lookup_short:
  "lookupWord (parse_document short_payload_text short_payload) (text_outcome short_payload_env)
     ''brick'' ''en'' ''es'' = Inr short_payload"
  by (simp add: lookupWord_def short_payload_env_def text_response_def clean_short
        parse_document_def) (simp add: short_payload_text_def)

lemma trim_brick: "trim ''brick'' = ''brick''"
  by (simp add: trim_def is_js_space_def)

text \<open>
  C1, as stated, fails: a response that parses and has no example and no scenario line is
  not a lookup failure; the lookup succeeds, with an entry of 0 examples and 0 scenario
  lines, no alert, and the result view.
\<close>

theorem lookup_counts_counterexample:
  "map_option examples (currentEntry (performLookup
       (parse_document short_payload_text short_payload) short_payload_env ''brick''
       (initial_state []))) = Some (JArr [])
   \<and> map_option scenario (currentEntry (performLookup
       (parse_document short_payload_text short_payload) short_payload_env ''brick''
       (initial_state []))) = Some (JArr [])
   \<and> alerts (performLookup
       (parse_document short_payload_text short_payload) short_payload_env ''brick''
       (initial_state [])) = []
   \<and> view (performLookup
       (parse_document short_payload_text short_payload) short_payload_env ''brick''
       (initial_state [])) = RESULT"
proof -
  have l: "lookupWord (parse_document short_payload_text short_payload)
      (text_outcome short_payload_env) ''brick'' (nativeLang (initial_state []))
      (targetLangSel (initial_state [])) = Inr short_payload"
    using lookup_short by (simp add: initial_state_def)
  have t: "trim ''brick'' \<noteq> []" by (simp add: trim_brick)
  have n: "short_payload \<noteq> JNull" by (simp add: short_payload_def)
  show ?thesis
    unfolding performLookup_ok [OF t l n]
    by (simp add: navigateTo_fields lookup_started_def entry_of_def initial_state_def
          field_def short_payload_def js_or_def)
qed


text \<open>
  C1, amended. The structured-text step succeeds exactly when the request returns a
  non-empty text that \<open>JSON.parse\<close> accepts; the shape of the value is not checked. For
  a non-blank term and a payload other than \<open>null\<close> the lookup then produces an entry
  whose examples and scenario are what the payload has under these keys, the empty list
  when there is nothing, however many elements they have. When the step fails, or the
  payload is \<open>null\<close>, the lookup is a hard failure: one alert, no entry, the view as it
  was.
\<close>

theorem lookup_entry_from_payload:
  "(lookupWord JSON_parse reply term0 a b = Inr parsed \<longleftrightarrow>
      (\<exists>response t. reply = Returned response \<and> text_resp response = Some t \<and> t \<noteq> []
         \<and> JSON_parse (cleanJsonText t) = Some parsed))
   \<and> (trim term \<noteq> []
        \<and> lookupWord JSON_parse (text_outcome env) term (nativeLang s) (targetLangSel s) = Inr v
        \<and> v \<noteq> JNull \<longrightarrow>
        (\<exists>e. currentEntry (performLookup JSON_parse env term s) = Some e
           \<and> examples e = js_or (field v ''examples'') (JArr [])
           \<and> scenario e = js_or (field v ''scenario'') (JArr []))
        \<and> alerts (performLookup JSON_parse env term s) = alerts s
        \<and> view (performLookup JSON_parse env term s) = RESULT)
   \<and> (trim term' \<noteq> []
        \<and> (lookupWord JSON_parse' (text_outcome env') term' (nativeLang s') (targetLangSel s')
              = Inl err
            \<or> lookupWord JSON_parse' (text_outcome env') term' (nativeLang s') (targetLangSel s')
              = Inr JNull) \<longrightarrow>
        currentEntry (performLookup JSON_parse' env' term' s') = currentEntry s'
        \<and> view (performLookup JSON_parse' env' term' s') = view s'
        \<and> alerts (performLookup JSON_parse' env' term' s')
            = alerts s' @ [''Oops! We couldn't find that word. Please try again.''])"
proof (intro conjI impI)
  show "lookupWord JSON_parse reply term0 a b = Inr parsed \<longleftrightarrow>
      (\<exists>response t. reply = Returned response \<and> text_resp response = Some t \<and> t \<noteq> []
         \<and> JSON_parse (cleanJsonText t) = Some parsed)"
    by (auto simp: lookupWord_def split: remote.splits option.splits if_splits)
next
  assume a: "trim term \<noteq> []
        \<and> lookupWord JSON_parse (text_outcome env) term (nativeLang s) (targetLangSel s) = Inr v
        \<and> v \<noteq> JNull"
  then have ok: "performLookup JSON_parse env term s =
     (navigateTo RESULT ((lookup_started term s)\<lparr>currentEntry := Some (entry_of v env term s)\<rparr>))
       \<lparr>loading := False\<rparr>"
    by (intro performLookup_ok) simp_all
  show "\<exists>e. currentEntry (performLookup JSON_parse env term s) = Some e
           \<and> examples e = js_or (field v ''examples'') (JArr [])
           \<and> scenario e = js_or (field v ''scenario'') (JArr [])"
    by (simp add: ok navigateTo_fields entry_of_def)
  show "alerts (performLookup JSON_parse env term s) = alerts s"
    by (simp add: ok navigateTo_fields lookup_started_def)
  show "view (performLookup JSON_parse env term s) = RESULT"
    by (simp add: ok navigateTo_fields)
next
  assume a: "trim term' \<noteq> []
        \<and> (lookupWord JSON_parse' (text_outcome env') term' (nativeLang s') (targetLangSel s')
              = Inl err
            \<or> lookupWord JSON_parse' (text_outcome env') term' (nativeLang s') (targetLangSel s')
              = Inr JNull)"
  then have f: "performLookup JSON_parse' env' term' s' =
     (alert ''Oops! We couldn't find that word. Please try again.'' (lookup_started term' s'))
       \<lparr>loading := False\<rparr>"
    by (intro performLookup_failed [where err = err]) simp_all
  show "currentEntry (performLookup JSON_parse' env' term' s') = currentEntry s'"
    and "view (performLookup JSON_parse' env' term' s') = view s'"
    and "alerts (performLookup JSON_parse' env' term' s')
            = alerts s' @ [''Oops! We couldn't find that word. Please try again.'']"
    by (simp_all add: f alert_def lookup_started_def)
qed


theorem lookup_entry_from_payload_witness:
  "trim ''brick'' \<noteq> []
   \<and> lookupWord (parse_document short_payload_text short_payload)
        (text_outcome short_payload_env) ''brick'' (nativeLang (initial_state []))
        (targetLangSel (initial_state [])) = Inr short_payload
   \<and> short_payload \<noteq> JNull
   \<and> (\<exists>e. currentEntry (performLookup (parse_document short_payload_text short_payload)
                short_payload_env ''brick'' (initial_state [])) = Some e
         \<and> examples e = JArr [] \<and> scenario e = JArr [])
   \<and> lookupWord (\<lambda>t. None) (text_outcome (short_payload_env\<lparr>text_outcome := Threw\<rparr>))
        ''brick'' (nativeLang (initial_state [])) (targetLangSel (initial_state []))
       = Inl RemoteError
   \<and> currentEntry (performLookup (\<lambda>t. None) (short_payload_env\<lparr>text_outcome := Threw\<rparr>)
        ''brick'' (initial_state [])) = None
   \<and> alerts (performLookup (\<lambda>t. None) (short_payload_env\<lparr>text_outcome := Threw\<rparr>)
        ''brick'' (initial_state []))
       = [''Oops! We couldn't find that word. Please try again.'']"
proof -
  have l: "lookupWord (parse_document short_payload_text short_payload)
      (text_outcome short_payload_env) ''brick'' (nativeLang (initial_state []))
      (targetLangSel (initial_state [])) = Inr short_payload"
    using lookup_short by (simp add: initial_state_def)
  have t: "trim ''brick'' \<noteq> []" by (simp add: trim_brick)
  have n: "short_payload \<noteq> JNull" by (simp add: short_payload_def)
  have f: "lookupWord (\<lambda>t. None) (text_outcome (short_payload_env\<lparr>text_outcome := Threw\<rparr>))
        ''brick'' (nativeLang (initial_state [])) (targetLangSel (initial_state []))
       = Inl RemoteError"
    by (simp add: lookupWord_def)
  have ex: "js_or (field short_payload ''examples'') (JArr []) = JArr []"
    and sc: "js_or (field short_payload ''scenario'') (JArr []) = JArr []"
    by (simp_all add: field_def short_payload_def js_or_def)
  from lookup_entry_from_payload
    [of "parse_document short_payload_text short_payload" "text_outcome short_payload_env"
        "''brick''" "''en''" "''es''" short_payload
        "''brick''" short_payload_env "initial_state []" short_payload
        "''brick''" "\<lambda>t. None" "short_payload_env\<lparr>text_outcome := Threw\<rparr>" "initial_state []"
        RemoteError]
    l t n f ex sc
  show ?thesis by (simp add: initial_state_def)
qed

text \<open>
  C2. When the structured-text step succeeds with a payload other than \<open>null\<close>, which
  is when the image step is reached, and the image request fails, the lookup succeeds
  all the same: the entry is shown, its image is absent, its text fields all have a
  value, and but for the image it is the entry that any other outcome of the image
  request would have given.
\<close>

theorem image_failure_keeps_entry:
  "trim term \<noteq> []
   \<and> lookupWord JSON_parse (text_outcome env) term (nativeLang s) (targetLangSel s) = Inr v
   \<and> v \<noteq> JNull
   \<and> image_failed (image_outcome env) \<longrightarrow>
   (\<exists>e. currentEntry (performLookup JSON_parse env term s) = Some e
      \<and> imageUrl e = None
      \<and> truthy (Some (translatedTerm e)) \<and> truthy (Some (definitionTarget e))
      \<and> truthy (Some (definitionNative e)) \<and> truthy (Some (usageNote e))
      \<and> truthy (Some (examples e)) \<and> truthy (Some (scenario e))
      \<and> term_entry e = term
      \<and> currentEntry (performLookup JSON_parse (env\<lparr>image_outcome := other\<rparr>) term s)
          = Some (e\<lparr>imageUrl := generateConceptImage other (translatedTerm e)
                     (js_or (field v ''definitionNative'') (JStr []))\<rparr>))
   \<and> alerts (performLookup JSON_parse env term s) = alerts s
   \<and> view (performLookup JSON_parse env term s) = RESULT
   \<and> loading (performLookup JSON_parse env term s) = False"
proof (intro impI)
  assume a: "trim term \<noteq> []
   \<and> lookupWord JSON_parse (text_outcome env) term (nativeLang s) (targetLangSel s) = Inr v
   \<and> v \<noteq> JNull
   \<and> image_failed (image_outcome env)"
  then have ok: "performLookup JSON_parse env term s =
     (navigateTo RESULT ((lookup_started term s)\<lparr>currentEntry := Some (entry_of v env term s)\<rparr>))
       \<lparr>loading := False\<rparr>"
    by (intro performLookup_ok) simp_all
  from a have "lookupWord JSON_parse (text_outcome (env\<lparr>image_outcome := other\<rparr>)) term
      (nativeLang s) (targetLangSel s) = Inr v" by simp
  with a have ok': "performLookup JSON_parse (env\<lparr>image_outcome := other\<rparr>) term s =
     (navigateTo RESULT ((lookup_started term s)
        \<lparr>currentEntry := Some (entry_of v (env\<lparr>image_outcome := other\<rparr>) term s)\<rparr>))
       \<lparr>loading := False\<rparr>"
    by (intro performLookup_ok) simp_all
  from a have img: "imageUrl (entry_of v env term s) = None"
    by (simp add: entry_of_def image_failed_None)
  from a have tm: "truthy (Some (JStr term))" by (simp add: trim_nonempty)
  have pop: "truthy (Some (translatedTerm (entry_of v env term s)))"
    "truthy (Some (definitionTarget (entry_of v env term s)))"
    "truthy (Some (definitionNative (entry_of v env term s)))"
    "truthy (Some (usageNote (entry_of v env term s)))"
    "truthy (Some (examples (entry_of v env term s)))"
    "truthy (Some (scenario (entry_of v env term s)))"
    using tm by (simp_all add: entry_of_def truthy_js_or)
  have other: "entry_of v (env\<lparr>image_outcome := other\<rparr>) term s
      = (entry_of v env term s)\<lparr>imageUrl := generateConceptImage other
           (translatedTerm (entry_of v env term s))
           (js_or (field v ''definitionNative'') (JStr []))\<rparr>"
    by (simp add: entry_of_def)
  show "(\<exists>e. currentEntry (performLookup JSON_parse env term s) = Some e
      \<and> imageUrl e = None
      \<and> truthy (Some (translatedTerm e)) \<and> truthy (Some (definitionTarget e))
      \<and> truthy (Some (definitionNative e)) \<and> truthy (Some (usageNote e))
      \<and> truthy (Some (examples e)) \<and> truthy (Some (scenario e))
      \<and> term_entry e = term
      \<and> currentEntry (performLookup JSON_parse (env\<lparr>image_outcome := other\<rparr>) term s)
          = Some (e\<lparr>imageUrl := generateConceptImage other (translatedTerm e)
                     (js_or (field v ''definitionNative'') (JStr []))\<rparr>))
   \<and> alerts (performLookup JSON_parse env term s) = alerts s
   \<and> view (performLookup JSON_parse env term s) = RESULT
   \<and> loading (performLookup JSON_parse env term s) = False"
  proof (intro conjI exI [of _ "entry_of v env term s"])
    show "currentEntry (performLookup JSON_parse env term s) = Some (entry_of v env term s)"
      by (simp add: ok navigateTo_fields)
    show "imageUrl (entry_of v env term s) = None" by (rule img)
    show "term_entry (entry_of v env term s) = term" by (simp add: entry_of_def)
    show "currentEntry (performLookup JSON_parse (env\<lparr>image_outcome := other\<rparr>) term s)
          = Some ((entry_of v env term s)\<lparr>imageUrl := generateConceptImage other
                     (translatedTerm (entry_of v env term s))
                     (js_or (field v ''definitionNative'') (JStr []))\<rparr>)"
      by (simp add: ok' navigateTo_fields other)
    show "alerts (performLookup JSON_parse env term s) = alerts s"
      by (simp add: ok navigateTo_fields lookup_started_def)
    show "view (performLookup JSON_parse env term s) = RESULT"
      by (simp add: ok navigateTo_fields)
    show "loading (performLookup JSON_parse env term s) = False"
      by (simp add: ok)
  qed (rule pop)+
qed


theorem image_failure_keeps_entry_witness:
  "trim ''brick'' \<noteq> []
   \<and> lookupWord (parse_document short_payload_text short_payload)
        (text_outcome short_payload_env) ''brick'' (nativeLang (initial_state []))
        (targetLangSel (initial_state [])) = Inr short_payload
   \<and> short_payload \<noteq> JNull
   \<and> image_failed (image_outcome short_payload_env)
   \<and> (\<exists>e. currentEntry (performLookup (parse_document short_payload_text short_payload)
                short_payload_env ''brick'' (initial_state [])) = Some e
         \<and> imageUrl e = None
         \<and> translatedTerm e = JStr ''ladrillo''
         \<and> definitionTarget e = JStr ''Definition not found''
         \<and> usageNote e = JStr ''No usage note available.'')
   \<and> view (performLookup (parse_document short_payload_text short_payload)
                short_payload_env ''brick'' (initial_state [])) = RESULT"
proof -
  let ?P = "parse_document short_payload_text short_payload"
  have l: "lookupWord ?P (text_outcome short_payload_env) ''brick''
      (nativeLang (initial_state [])) (targetLangSel (initial_state [])) = Inr short_payload"
    using lookup_short by (simp add: initial_state_def)
  have t: "trim ''brick'' \<noteq> []" by (simp add: trim_brick)
  have n: "short_payload \<noteq> JNull" by (simp add: short_payload_def)
  have i: "image_failed (image_outcome short_payload_env)"
    by (simp add: image_failed_def short_payload_env_def)
  have e: "currentEntry (performLookup ?P short_payload_env ''brick'' (initial_state []))
      = Some (entry_of short_payload short_payload_env ''brick'' (initial_state []))"
    by (simp add: performLookup_ok [OF t l n] navigateTo_fields)
  have v: "translatedTerm (entry_of short_payload short_payload_env ''brick'' (initial_state []))
        = JStr ''ladrillo''"
    "definitionTarget (entry_of short_payload short_payload_env ''brick'' (initial_state []))
        = JStr ''Definition not found''"
    "usageNote (entry_of short_payload short_payload_env ''brick'' (initial_state []))
        = JStr ''No usage note available.''"
    by (simp_all add: entry_of_def field_def short_payload_def js_or_def)
  from image_failure_keeps_entry
    [of "''brick''" ?P short_payload_env "initial_state []" short_payload Threw]
    l t n i e v
  show ?thesis by simp
qed

end
